(* ===== verification/Reel_Prelude.thy ===== *)
theory Reel_Prelude
  imports Main "HOL-Library.Word"
begin

text \<open>
  Shared vocabulary of the development.  The reel sources are Go; the parts of the Go
  standard library they call on text (package strconv: \<open>Atoi\<close>, \<open>ParseUint\<close> and the
  \<open>%d\<close> verb of fmt; package strings: \<open>Fields\<close>, \<open>TrimSpace\<close>; package bufio:
  \<open>ScanLines\<close>) are modelled here once, on byte strings (\<open>string\<close> is a list of
  8-bit \<open>char\<close>s, as a Go string is a sequence of bytes), together with the lemmas
  the components share: decimal printing and parsing are inverse, a line of
  space-separated words splits back into its words, and appending a line to a text
  that ends in a newline appends one line to what the scanner reads.
  Go's \<open>int\<close> is a 64-bit signed integer: it is \<open>int\<close> here together with the
  range predicate \<open>go_int\<close>; Go's \<open>uint64\<close> is \<open>u64\<close>, a 64-bit word, so that
  sums wrap as they do in Go.
  Only ASCII whitespace is modelled (the texts the program reads are written by the
  program itself with ASCII separators).
\<close>

named_theorems reel_simps "evaluation rules of the Go library models"

type_synonym u64 = "64 word"
type_synonym u32 = "32 word"

subsection \<open>Go integers\<close>

definition go_int :: "int \<Rightarrow> bool" where
  "go_int i \<longleftrightarrow> - (2 ^ 63) \<le> i \<and> i < 2 ^ 63"

subsection \<open>Decimal digits\<close>

definition dec_digit :: "char \<Rightarrow> bool" where
  "dec_digit c \<longleftrightarrow> (48::nat) \<le> of_char c \<and> of_char c \<le> (57::nat)"

definition digit_val :: "char \<Rightarrow> nat" where
  "digit_val c = of_char c - 48"

definition digit_char :: "nat \<Rightarrow> char" where
  "digit_char d = char_of (48 + d)"

text \<open>\<open>strconv.FormatUint\<close> in base 10, the digits of \<open>%d\<close>.\<close>

fun nat_digits :: "nat \<Rightarrow> string" where
  "nat_digits n = (if n < 10 then [digit_char n] else nat_digits (n div 10) @ [digit_char (n mod 10)])"

declare nat_digits.simps [simp del]

text \<open>\<open>fmt.Sprintf("%d", i)\<close> for a signed and for an unsigned integer.\<close>

definition fmt_int :: "int \<Rightarrow> string" where
  "fmt_int i = (if i < 0 then CHR ''-'' # nat_digits (nat (- i)) else nat_digits (nat i))"

definition fmt_u64 :: "u64 \<Rightarrow> string" where
  "fmt_u64 w = nat_digits (unat w)"

text \<open>\<open>fmt.Sprintf("%04d", i)\<close>: zero-padded to a width of four, the sign counting
  towards the width.\<close>

definition fmt_04d :: "int \<Rightarrow> string" where
  "fmt_04d i =
     (if i < 0 then CHR ''-'' # replicate (3 - length (nat_digits (nat (- i)))) (CHR ''0'') @ nat_digits (nat (- i))
      else replicate (4 - length (nat_digits (nat i))) (CHR ''0'') @ nat_digits (nat i))"

definition digits_value :: "string \<Rightarrow> nat" where
  "digits_value s = foldl (\<lambda>a c. 10 * a + digit_val c) 0 s"

text \<open>The common core of \<open>strconv.ParseUint\<close> and \<open>strconv.Atoi\<close> in base 10: a
  non-empty run of ASCII digits, nothing else (no sign, no underscore, no blank).\<close>

definition parse_digits :: "string \<Rightarrow> nat option" where
  "parse_digits s = (if s \<noteq> [] \<and> list_all dec_digit s then Some (digits_value s) else None)"

text \<open>\<open>strconv.Atoi\<close>: an optional sign, then digits; out of the range of a 64-bit
  \<open>int\<close> is an error (\<open>ErrRange\<close>).\<close>

definition atoi :: "string \<Rightarrow> int option" where
  "atoi s =
     (let (neg, ds) = (case s of
                         [] \<Rightarrow> (False, [])
                       | c # r \<Rightarrow> (if c = CHR ''-'' then (True, r)
                                  else if c = CHR ''+'' then (False, r) else (False, s)))
      in case parse_digits ds of
           None \<Rightarrow> None
         | Some n \<Rightarrow> (let v = (if neg then - int n else int n)
                      in if go_int v then Some v else None))"

text \<open>\<open>strconv.ParseUint(s, 10, 64)\<close>.\<close>

definition parse_uint64 :: "string \<Rightarrow> u64 option" where
  "parse_uint64 s =
     (case parse_digits s of
        None \<Rightarrow> None
      | Some n \<Rightarrow> if n < 2 ^ 64 then Some (of_nat n) else None)"

subsection \<open>Whitespace, str_fields and lines\<close>

text \<open>Go's \<open>asciiSpace\<close> table: tab, newline, vertical tab, form feed, carriage
  return and blank.\<close>

definition ascii_space :: "char \<Rightarrow> bool" where
  "ascii_space c \<longleftrightarrow> of_char c \<in> {9, 10, 11, 12, 13, 32::nat}"

text \<open>\<open>strings.Fields\<close>: the maximal runs of non-space bytes, in order.  The first
  argument is the current run, reversed.\<close>

fun fields_aux :: "string \<Rightarrow> string \<Rightarrow> string list" where
  "fields_aux cur [] = (if cur = [] then [] else [rev cur])"
| "fields_aux cur (c # cs) =
     (if ascii_space c then (if cur = [] then fields_aux [] cs else rev cur # fields_aux [] cs)
      else fields_aux (c # cur) cs)"

definition str_fields :: "string \<Rightarrow> string list" where
  "str_fields s = fields_aux [] s"

text \<open>\<open>strings.TrimSpace\<close>.\<close>

definition trim_space :: "string \<Rightarrow> string" where
  "trim_space s = rev (dropWhile ascii_space (rev (dropWhile ascii_space s)))"

text \<open>\<open>bufio.ScanLines\<close>, the scanner's default split: lines end at a newline, one
  trailing carriage return is dropped, and a last line without newline is still a line
  unless it is empty.\<close>

definition drop_cr :: "string \<Rightarrow> string" where
  "drop_cr l = (if l \<noteq> [] \<and> last l = CHR 0x0D then butlast l else l)"

fun split_lines :: "string \<Rightarrow> string \<Rightarrow> string list" where
  "split_lines cur [] = (if cur = [] then [] else [rev cur])"
| "split_lines cur (c # cs) =
     (if c = CHR ''\<newline>'' then rev cur # split_lines [] cs else split_lines (c # cur) cs)"

definition scan_lines :: "string \<Rightarrow> string list" where
  "scan_lines s = map drop_cr (split_lines [] s)"

text \<open>A token as \<open>strings.Fields\<close> returns it: non-empty, without blanks.\<close>

definition no_space :: "string \<Rightarrow> bool" where
  "no_space w \<longleftrightarrow> w \<noteq> [] \<and> (\<forall>c\<in>set w. \<not> ascii_space c)"

definition ends_line :: "string \<Rightarrow> bool" where
  "ends_line s \<longleftrightarrow> s = [] \<or> last s = CHR ''\<newline>''"

subsection \<open>Lemmas: digits\<close>

text \<open>The rules that evaluate the text functions on concrete strings by \<open>simp\<close>.\<close>

lemmas go_text_eval = atoi_def parse_uint64_def parse_digits_def dec_digit_def digits_value_def
  digit_val_def go_int_def nat_digits.simps digit_char_def char_of_eq_iff fmt_int_def fmt_u64_def
  scan_lines_def drop_cr_def trim_space_def ascii_space_def str_fields_def

lemma digit_val_digit_char [simp]: "d < 10 \<Longrightarrow> digit_val (digit_char d) = d"
  by (simp add: digit_val_def digit_char_def)

lemma dec_digit_digit_char [simp]: "d < 10 \<Longrightarrow> dec_digit (digit_char d)"
  by (simp add: dec_digit_def digit_char_def)

lemma ascii_space_digit_char [simp]: "d < 10 \<Longrightarrow> \<not> ascii_space (digit_char d)"
  by (auto simp add: ascii_space_def digit_char_def)

lemma nat_digits_ne [simp]: "nat_digits n \<noteq> []"
  by (subst nat_digits.simps) simp

lemma nat_digits_all_digits: "list_all dec_digit (nat_digits n)"
proof (induction n rule: nat_digits.induct)
  case (1 n)
  then show ?case by (subst nat_digits.simps) simp
qed

lemma nat_digits_no_space: "c \<in> set (nat_digits n) \<Longrightarrow> \<not> ascii_space c"
proof (induction n rule: nat_digits.induct)
  case (1 n)
  then show ?case by (subst (asm) nat_digits.simps) (auto split: if_splits)
qed

lemma nat_digits_no_newline: "CHR ''\<newline>'' \<notin> set (nat_digits n)"
  using nat_digits_no_space [of "CHR ''\<newline>''" n] by (auto simp: ascii_space_def)

lemma digits_value_snoc: "digits_value (xs @ [c]) = 10 * digits_value xs + digit_val c"
  by (simp add: digits_value_def)

lemma digits_value_nat_digits [simp]: "digits_value (nat_digits n) = n"
proof (induction n rule: nat_digits.induct)
  case (1 n)
  then show ?case by (subst nat_digits.simps) (simp add: digits_value_snoc digits_value_def)
qed

lemma parse_digits_nat_digits [simp]: "parse_digits (nat_digits n) = Some n"
  by (simp add: parse_digits_def nat_digits_all_digits)

lemma colon_not_digit [simp]: "\<not> dec_digit CHR '':''"
  by (simp add: dec_digit_def)

lemma takeWhile_nat_digits: "takeWhile dec_digit (nat_digits n @ r) = nat_digits n @ takeWhile dec_digit r"
  using nat_digits_all_digits [of n] by (simp add: takeWhile_append2 list_all_iff)

lemma takeWhile_nat_digits_all [simp]: "takeWhile dec_digit (nat_digits n) = nat_digits n"
  using takeWhile_nat_digits [of n "[]"] by simp

lemma nat_digits_inj [simp]: "nat_digits i = nat_digits j \<longleftrightarrow> i = j"
  by (metis digits_value_nat_digits)

lemma nat_digits_hd: "hd (nat_digits n) \<noteq> CHR ''-'' \<and> hd (nat_digits n) \<noteq> CHR ''+''"
  using nat_digits_all_digits [of n] nat_digits_ne [of n]
  by (cases "nat_digits n") (auto simp: dec_digit_def)

lemma atoi_fmt_int [reel_simps]:
  assumes "go_int i"
  shows "atoi (fmt_int i) = Some i"
proof (cases "i < 0")
  case True
  with assms show ?thesis by (simp add: atoi_def fmt_int_def)
next
  case False
  obtain a r where nd: "nat_digits (nat i) = a # r"
    by (cases "nat_digits (nat i)") auto
  with nat_digits_hd [of "nat i"] have "a \<noteq> CHR ''-'' \<and> a \<noteq> CHR ''+''" by simp
  moreover from nd have "parse_digits (a # r) = Some (nat i)"
    by (metis parse_digits_nat_digits)
  ultimately show ?thesis using False assms nd by (simp add: atoi_def fmt_int_def)
qed

lemma parse_uint64_fmt_u64 [simp, reel_simps]: "parse_uint64 (fmt_u64 w) = Some w"
  using unsigned_less [of w, where ?'a = nat] by (simp add: parse_uint64_def fmt_u64_def)


subsection \<open>Lemmas: str_fields and lines\<close>

lemma fields_aux_word:
  "\<forall>c\<in>set w. \<not> ascii_space c \<Longrightarrow> fields_aux cur (w @ rest) = fields_aux (rev w @ cur) rest"
  by (induction w arbitrary: cur) auto

lemma fields_word_sep:
  "no_space w \<Longrightarrow> ascii_space c \<Longrightarrow> str_fields (w @ c # rest) = w # str_fields rest"
  by (simp add: str_fields_def fields_aux_word no_space_def)

lemma fields_word: "no_space w \<Longrightarrow> str_fields w = [w]"
  using fields_aux_word [of w "[]" "[]"] by (simp add: str_fields_def no_space_def)

lemma trim_space_id:
  assumes "s \<noteq> []" and "\<not> ascii_space (hd s)" and "\<not> ascii_space (last s)"
  shows "trim_space s = s"
proof -
  have "dropWhile ascii_space s = s"
    using assms by (cases s) auto
  moreover have "dropWhile ascii_space (rev s) = rev s"
    using assms by (cases s rule: rev_cases) auto
  ultimately show ?thesis by (simp add: trim_space_def)
qed

lemma split_lines_word:
  "CHR ''\<newline>'' \<notin> set l \<Longrightarrow> split_lines cur (l @ rest) = split_lines (rev l @ cur) rest"
  by (induction l arbitrary: cur) auto

lemma split_lines_append:
  "split_lines cur (s @ CHR ''\<newline>'' # t) = split_lines cur (s @ [CHR ''\<newline>'']) @ split_lines [] t"
  by (induction s arbitrary: cur) auto

lemma scan_lines_append_line:
  assumes "ends_line s" and "CHR ''\<newline>'' \<notin> set l"
  shows "scan_lines (s @ l @ [CHR ''\<newline>'']) = scan_lines s @ [drop_cr l]"
proof -
  have one: "split_lines [] (l @ [CHR ''\<newline>'']) = [l]"
    using assms(2) by (simp add: split_lines_word)
  show ?thesis
  proof (cases "s = []")
    case True
    then show ?thesis by (simp add: scan_lines_def one)
  next
    case False
    with assms(1) have "s = butlast s @ [CHR ''\<newline>'']"
      by (metis append_butlast_last_id ends_line_def)
    then obtain s' where s: "s = s' @ [CHR ''\<newline>'']" by blast
    have "split_lines [] (s @ l @ [CHR ''\<newline>'']) = split_lines [] s @ [l]"
      using split_lines_append [of "[]" s' "l @ [CHR ''\<newline>'']"] by (simp add: s one)
    then show ?thesis by (simp add: scan_lines_def)
  qed
qed

subsection \<open>Lemmas: lists updated by index\<close>

text \<open>Per-goroutine state is a list updated by index; these relate a sum over the list
  before and after one update.\<close>

lemma sum_list_update_add:
  "k < length xs \<Longrightarrow> sum_list (xs[k := x]) + xs ! k = sum_list xs + (x :: 'a :: comm_monoid_add)"
proof (induction xs arbitrary: k)
  case Nil then show ?case by simp
next
  case (Cons y ys) then show ?case by (cases k) (simp_all add: ac_simps)
qed

lemma sum_map_update:
  "k < length xs \<Longrightarrow> sum_list (map f (xs[k := x])) + f (xs ! k) = sum_list (map f xs) + (f x :: 'a :: comm_monoid_add)"
  using sum_list_update_add [of k "map f xs" "f x"] by (simp add: map_update)

lemma set_update_sub: "set (xs[k := x]) \<subseteq> insert x (set xs)"
  by (induction xs arbitrary: k) (auto split: nat.splits)

lemma sum_list_replicate_zero [simp]: "sum_list (replicate n (0 :: 'a :: monoid_add)) = 0"
  by (induction n) simp_all

end
