(* ===== verification/Chunk.thy ===== *)
theory Chunk
  imports Reel_Prelude
begin

text \<open>
  Package chunk (\<open>src/internal/chunk/chunk.go\<close>): the chunk and scene types, the
  scene file reader \<open>LoadScenes\<close> and its check \<open>ValidateScenes\<close>, \<open>Chunkify\<close>,
  and the resume log \<open>done.txt\<close> (\<open>GetResume\<close>, \<open>AppendDone\<close>, \<open>DoneSet\<close>,
  \<open>TotalEncodedSize\<close>, \<open>TotalEncodedFrames\<close>), and the chunk file name of
  \<open>IVFPath\<close>.  The boundaries in the scene file are written by the keyframe package,
  which is not among the sources: \<open>fixed_boundaries\<close> and \<open>scene_file\<close> model it
  from the spec (section 4.2).  A file is a \<open>file_state\<close>: absent, unreadable, or
  its contents as a byte string.
  The lemmas show that the chunks are a partition of the frame range whenever the
  boundaries lie in it, that the planner's file yields exactly the chunks of the
  spec's formula, and that the log line format parses back to the record written.
\<close>

subsection \<open>Types\<close>

record scene =
  scene_start :: int
  scene_end :: int

record chunk =
  c_idx :: int
  c_start :: int
  c_end :: int

definition chunk_frames :: "chunk \<Rightarrow> int" where
  "chunk_frames c = c_end c - c_start c"

record chunk_comp =
  cc_idx :: int
  cc_frames :: int
  cc_size :: u64

record resume_inf =
  chunks_done :: "chunk_comp list"

datatype file_state = Absent | Unreadable | Contents string

datatype chunk_error =
    OpenFailed
  | ReadFailed
  | InvalidFrameNumber string
  | NoScenes
  | InvalidFpsDen
  | SceneTooLong nat int int
  | InvalidSceneLength nat int
  | ResumeOpenFailed
  | ResumeReadFailed
  | AppendFailed

subsection \<open>LoadScenes\<close>

text \<open>The scanner loop of \<open>LoadScenes\<close>: blank lines are skipped, the first line
  that is no integer is an error.\<close>

fun parse_frame_numbers :: "string list \<Rightarrow> chunk_error + int list" where
  "parse_frame_numbers [] = Inr []"
| "parse_frame_numbers (l # ls) =
     (let t = trim_space l in
      if t = [] then parse_frame_numbers ls
      else case atoi t of
             None \<Rightarrow> Inl (InvalidFrameNumber t)
           | Some n \<Rightarrow> (case parse_frame_numbers ls of
                          Inl e \<Rightarrow> Inl e
                        | Inr ns \<Rightarrow> Inr (n # ns)))"

text \<open>\<open>if len(frameNums) == 0 || frameNums[0] != 0\<close>: prepend frame 0.\<close>

definition ensure_zero :: "int list \<Rightarrow> int list" where
  "ensure_zero ns = (if ns = [] \<or> hd ns \<noteq> 0 then 0 # ns else ns)"

text \<open>The conversion loop: scene \<open>i\<close> runs from boundary \<open>i\<close> to boundary \<open>i+1\<close>,
  the last one to \<open>totalFrames\<close>; empty scenes are dropped.\<close>

fun scenes_of :: "int list \<Rightarrow> int \<Rightarrow> scene list" where
  "scenes_of [] total_frames = []"
| "scenes_of [s] total_frames =
     (if s < total_frames then [\<lparr>scene_start = s, scene_end = total_frames\<rparr>] else [])"
| "scenes_of (s # e # rest) total_frames =
     (if s < e then \<lparr>scene_start = s, scene_end = e\<rparr> # scenes_of (e # rest) total_frames
      else scenes_of (e # rest) total_frames)"

definition load_scenes :: "file_state \<Rightarrow> int \<Rightarrow> chunk_error + scene list" where
  "load_scenes f total_frames =
     (case f of
        Absent \<Rightarrow> Inl OpenFailed
      | Unreadable \<Rightarrow> Inl ReadFailed
      | Contents s \<Rightarrow>
          (case parse_frame_numbers (scan_lines s) of
             Inl e \<Rightarrow> Inl e
           | Inr ns \<Rightarrow> Inr (scenes_of (ensure_zero (sort ns)) total_frames)))"

subsection \<open>ValidateScenes\<close>

text \<open>\<open>maxFrames = min(int(fps*30), 1000)\<close> with \<open>fps = fpsNum/fpsDen\<close>; the
  product is computed exactly here (Go computes it in float64).\<close>

definition max_scene_frames :: "nat \<Rightarrow> nat \<Rightarrow> int" where
  "max_scene_frames fps_num fps_den = min (int ((30 * fps_num) div fps_den)) 1000"

fun check_scenes :: "int \<Rightarrow> nat \<Rightarrow> scene list \<Rightarrow> chunk_error option" where
  "check_scenes mx i [] = None"
| "check_scenes mx i (sc # ss) =
     (let len = scene_end sc - scene_start sc in
      if len > mx then Some (SceneTooLong i len mx)
      else if len \<le> 0 then Some (InvalidSceneLength i len)
      else check_scenes mx (Suc i) ss)"

definition validate_scenes :: "scene list \<Rightarrow> nat \<Rightarrow> nat \<Rightarrow> chunk_error option" where
  "validate_scenes ss fps_num fps_den =
     (if ss = [] then Some NoScenes
      else if fps_den = 0 then Some InvalidFpsDen
      else check_scenes (max_scene_frames fps_num fps_den) 0 ss)"

subsection \<open>Chunkify\<close>

text \<open>\<open>chunks[i] = Chunk{Idx: i, Start: scene.StartFrame, End: scene.EndFrame}\<close>.\<close>

definition chunk_of :: "nat \<Rightarrow> scene \<Rightarrow> chunk" where
  "chunk_of i sc = \<lparr>c_idx = int i, c_start = scene_start sc, c_end = scene_end sc\<rparr>"

definition chunkify :: "scene list \<Rightarrow> chunk list" where
  "chunkify ss = map (\<lambda>(i, sc). chunk_of i sc) (enumerate 0 ss)"

subsection \<open>The resume log\<close>

text \<open>One line of \<open>GetResume\<close>'s loop: exactly three fields, two \<open>Atoi\<close>s and a
  \<open>ParseUint\<close>; anything else is skipped.\<close>

definition parse_done_line :: "string \<Rightarrow> chunk_comp option" where
  "parse_done_line l =
     (let parts = str_fields l in
      if length parts \<noteq> 3 then None
      else case atoi (parts ! 0) of
             None \<Rightarrow> None
           | Some i \<Rightarrow> (case atoi (parts ! 1) of
                          None \<Rightarrow> None
                        | Some fr \<Rightarrow> (case parse_uint64 (parts ! 2) of
                                       None \<Rightarrow> None
                                     | Some sz \<Rightarrow> Some \<lparr>cc_idx = i, cc_frames = fr, cc_size = sz\<rparr>)))"

fun parse_done_lines :: "string list \<Rightarrow> chunk_comp list" where
  "parse_done_lines [] = []"
| "parse_done_lines (l # ls) =
     (let t = trim_space l in
      if t = [] then parse_done_lines ls
      else case parse_done_line t of
             None \<Rightarrow> parse_done_lines ls
           | Some c \<Rightarrow> c # parse_done_lines ls)"

text \<open>\<open>GetResume\<close>: an absent log is an empty resume state.\<close>

definition get_resume :: "file_state \<Rightarrow> chunk_error + resume_inf" where
  "get_resume f =
     (case f of
        Absent \<Rightarrow> Inr \<lparr>chunks_done = []\<rparr>
      | Unreadable \<Rightarrow> Inl ResumeOpenFailed
      | Contents s \<Rightarrow> Inr \<lparr>chunks_done = parse_done_lines (scan_lines s)\<rparr>)"

text \<open>\<open>AppendDone\<close>: \<open>fmt.Fprintf(file, "%d %d %d\n", ...)\<close> in append mode,
  creating the file when it is absent.\<close>

definition format_done_line :: "chunk_comp \<Rightarrow> string" where
  "format_done_line c =
     fmt_int (cc_idx c) @ CHR '' '' # fmt_int (cc_frames c) @ CHR '' '' # fmt_u64 (cc_size c) @ [CHR ''\<newline>'']"

definition append_done :: "chunk_comp \<Rightarrow> file_state \<Rightarrow> chunk_error + file_state" where
  "append_done c f =
     (case f of
        Absent \<Rightarrow> Inr (Contents (format_done_line c))
      | Unreadable \<Rightarrow> Inl AppendFailed
      | Contents s \<Rightarrow> Inr (Contents (s @ format_done_line c)))"

text \<open>\<open>DoneSet\<close>: a Go \<open>map[int]bool\<close> filled by the loop over the log.\<close>

definition done_set :: "resume_inf \<Rightarrow> int \<rightharpoonup> bool" where
  "done_set r = fold (\<lambda>c m. m(cc_idx c \<mapsto> True)) (chunks_done r) Map.empty"

text \<open>A missing key reads as \<open>false\<close>, as \<open>doneSet[ch.Idx]\<close> does.\<close>

definition map_bool :: "(int \<rightharpoonup> bool) \<Rightarrow> int \<Rightarrow> bool" where
  "map_bool m k = (case m k of None \<Rightarrow> False | Some b \<Rightarrow> b)"

text \<open>\<open>TotalEncodedSize\<close> sums in \<open>uint64\<close>, so it wraps; \<open>TotalEncodedFrames\<close>
  sums in \<open>int\<close>.\<close>

definition total_encoded_size :: "resume_inf \<Rightarrow> u64" where
  "total_encoded_size r = fold (\<lambda>c t. t + cc_size c) (chunks_done r) 0"

definition total_encoded_frames :: "resume_inf \<Rightarrow> int" where
  "total_encoded_frames r = fold (\<lambda>c t. t + cc_frames c) (chunks_done r) 0"

text \<open>The file name part of \<open>IVFPath\<close>: \<open>fmt.Sprintf("%04d.ivf", chunkIdx)\<close>.\<close>

definition ivf_name :: "int \<Rightarrow> string" where
  "ivf_name i = fmt_04d i @ ''.ivf''"

text \<open>The text of a log line without its newline, and a torn line's leftover: a
  non-empty run of digits.\<close>

definition done_line_body :: "chunk_comp \<Rightarrow> string" where
  "done_line_body c = fmt_int (cc_idx c) @ CHR '' '' # fmt_int (cc_frames c) @ CHR '' '' # fmt_u64 (cc_size c)"

definition digit_string :: "string \<Rightarrow> bool" where
  "digit_string p \<longleftrightarrow> p \<noteq> [] \<and> list_all dec_digit p"

subsection \<open>The planner's scene file (keyframe package, from the spec)\<close>

text \<open>Spec section 4.2: boundaries \<open>i \<cdot> fpc\<close> below \<open>total_frames\<close>, one decimal per line.\<close>

definition fixed_boundaries :: "int \<Rightarrow> int \<Rightarrow> int list" where
  "fixed_boundaries total_frames fpc = map (\<lambda>i. int i * fpc) [0..<nat ((total_frames + fpc - 1) div fpc)]"

definition scene_file :: "int list \<Rightarrow> string" where
  "scene_file bs = concat (map (\<lambda>b. fmt_int b @ [CHR ''\<newline>'']) bs)"

text \<open>The chunks the spec's algorithm emits: \<open>(i, i \<cdot> fpc, min((i+1) \<cdot> fpc, total_frames))\<close>.\<close>

definition spec_chunks :: "int \<Rightarrow> int \<Rightarrow> chunk list" where
  "spec_chunks total_frames fpc =
     map (\<lambda>i. \<lparr>c_idx = int i, c_start = int i * fpc, c_end = min ((int i + 1) * fpc) total_frames\<rparr>)
       [0..<nat ((total_frames + fpc - 1) div fpc)]"

subsection \<open>The partition predicate\<close>

text \<open>Chunks numbered from \<open>i\<close> that tile \<open>[s, total_frames)\<close> in order, each non-empty.\<close>

fun tiles_from :: "int \<Rightarrow> int \<Rightarrow> int \<Rightarrow> chunk list \<Rightarrow> bool" where
  "tiles_from i s total_frames [] \<longleftrightarrow> s = total_frames"
| "tiles_from i s total_frames (c # cs) \<longleftrightarrow>
     c_idx c = i \<and> c_start c = s \<and> s < c_end c \<and> tiles_from (i + 1) (c_end c) total_frames cs"

definition chunk_partition :: "chunk list \<Rightarrow> int \<Rightarrow> bool" where
  "chunk_partition cs total_frames \<longleftrightarrow> cs \<noteq> [] \<and> tiles_from 0 0 total_frames cs"

fun scene_tiles :: "int \<Rightarrow> int \<Rightarrow> scene list \<Rightarrow> bool" where
  "scene_tiles s total_frames [] \<longleftrightarrow> s = total_frames"
| "scene_tiles s total_frames (sc # ss) \<longleftrightarrow>
     scene_start sc = s \<and> s < scene_end sc \<and> scene_tiles (scene_end sc) total_frames ss"


subsection \<open>Lemmas: partition\<close>

lemma scenes_of_tiles:
  "sorted (x # xs) \<Longrightarrow> \<forall>n\<in>set xs. n \<le> tf \<Longrightarrow> x \<le> tf \<Longrightarrow> scene_tiles x tf (scenes_of (x # xs) tf)"
proof (induction xs arbitrary: x)
  case Nil
  then show ?case by auto
next
  case (Cons e rest)
  then have "x \<le> e" and "e \<le> tf" and "sorted (e # rest)" and "\<forall>n\<in>set rest. n \<le> tf" by auto
  with Cons.IH have IH: "scene_tiles e tf (scenes_of (e # rest) tf)" by blast
  show ?case
  proof (cases "x < e")
    case True
    with IH show ?thesis by simp
  next
    case False
    with \<open>x \<le> e\<close> IH show ?thesis by simp
  qed
qed

lemma tiles_chunkify:
  "scene_tiles s tf ss \<Longrightarrow> tiles_from (int n) s tf (map (\<lambda>(i, sc). chunk_of i sc) (enumerate n ss))"
proof (induction ss arbitrary: n s)
  case Nil then show ?case by simp
next
  case (Cons sc ss)
  then have "scene_tiles (scene_end sc) tf ss" by simp
  from Cons.IH [OF this, of "Suc n"] Cons.prems show ?case
    by (simp add: chunk_of_def add.commute)
qed

lemma enumerate_Nil_iff [simp]: "enumerate n xs = [] \<longleftrightarrow> xs = []"
  by (auto simp: enumerate_eq_zip)

lemma scene_tiles_nonempty: "scene_tiles s tf ss \<Longrightarrow> s < tf \<Longrightarrow> ss \<noteq> []"
  by (cases ss) auto

lemma ensure_zero_sorted:
  assumes "sorted ns" and "\<forall>n\<in>set ns. 0 \<le> n"
  obtains xs where "ensure_zero ns = 0 # xs" and "sorted (0 # xs)" and "set xs \<subseteq> set ns"
proof (cases "ns = [] \<or> hd ns \<noteq> 0")
  case True
  with assms show ?thesis by (intro that [of ns]) (auto simp: ensure_zero_def)
next
  case False
  then obtain xs where "ns = 0 # xs" by (cases ns) auto
  with assms show ?thesis by (intro that [of xs]) (auto simp: ensure_zero_def)
qed

text \<open>C6. Whatever boundaries the scene file holds, as long as they lie in
  \<open>[0, totalFrames]\<close> (in any order, with repetitions), \<open>LoadScenes\<close> succeeds and
  \<open>Chunkify\<close> numbers its scenes into a partition of \<open>[0, totalFrames)\<close>: chunk
  \<open>i\<close> has index \<open>i\<close>, each is non-empty, each starts where the previous ends, the
  first at 0 and the last ending at \<open>totalFrames\<close>.\<close>

theorem load_scenes_partition:
  assumes parsed: "parse_frame_numbers (scan_lines s) = Inr ns"
    and pos: "0 < tf"
    and bounds: "\<forall>n\<in>set ns. 0 \<le> n \<and> n \<le> tf"
  shows "\<exists>ss. load_scenes (Contents s) tf = Inr ss \<and> chunk_partition (chunkify ss) tf"
proof -
  have "sorted (sort ns)" and "\<forall>n\<in>set (sort ns). 0 \<le> n" using bounds by auto
  then obtain xs where ez: "ensure_zero (sort ns) = 0 # xs" and srt: "sorted (0 # xs)"
    and sub: "set xs \<subseteq> set ns"
    by (rule ensure_zero_sorted) auto
  have "\<forall>n\<in>set xs. n \<le> tf" using sub bounds by auto
  with srt pos have tl: "scene_tiles 0 tf (scenes_of (0 # xs) tf)"
    by (intro scenes_of_tiles) auto
  let ?ss = "scenes_of (0 # xs) tf"
  have "load_scenes (Contents s) tf = Inr ?ss"
    by (simp add: load_scenes_def parsed ez)
  moreover have "chunk_partition (chunkify ?ss) tf"
    using tiles_chunkify [OF tl, of 0] scene_tiles_nonempty [OF tl pos]
    by (simp add: chunk_partition_def chunkify_def)
  ultimately show ?thesis by blast
qed

lemma tiles_from_le: "tiles_from i s tf cs \<Longrightarrow> s \<le> tf"
  by (induction cs arbitrary: i s) fastforce+

lemma tiles_from_bounds:
  "tiles_from i s tf cs \<Longrightarrow> c \<in> set cs \<Longrightarrow> s \<le> c_start c \<and> c_start c < c_end c \<and> c_end c \<le> tf"
proof (induction cs arbitrary: i s)
  case Nil then show ?case by simp
next
  case (Cons c0 cs)
  then have tl: "tiles_from (i + 1) (c_end c0) tf cs" and c0: "c_start c0 = s" "s < c_end c0" by simp_all
  show ?case
  proof (cases "c = c0")
    case True
    with tl c0 tiles_from_le [OF tl] show ?thesis by simp
  next
    case False
    with Cons.prems have "c \<in> set cs" by simp
    with Cons.IH [OF tl] c0 show ?thesis by fastforce
  qed
qed

lemma tiles_from_unique:
  "tiles_from i s tf cs \<Longrightarrow> s \<le> f \<Longrightarrow> f < tf \<Longrightarrow> \<exists>!c. c \<in> set cs \<and> c_start c \<le> f \<and> f < c_end c"
proof (induction cs arbitrary: i s)
  case Nil then show ?case by simp
next
  case (Cons c0 cs)
  show ?case
  proof (cases "f < c_end c0")
    case True
    have "\<not> (c_start c \<le> f \<and> f < c_end c)" if "c \<in> set cs" for c
      using tiles_from_bounds [of "i + 1" "c_end c0" tf cs c] Cons.prems True that by auto
    with True Cons.prems show ?thesis by auto
  next
    case False
    with Cons.prems Cons.IH [of "i + 1" "c_end c0"] show ?thesis by auto
  qed
qed

lemma tiles_from_nth:
  "tiles_from i s tf cs \<Longrightarrow> k < length cs \<Longrightarrow> c_idx (cs ! k) = i + int k \<and> c_start (cs ! k) < c_end (cs ! k)"
proof (induction cs arbitrary: i s k)
  case Nil then show ?case by simp
next
  case (Cons c0 cs)
  then show ?case by (cases k) auto
qed

lemma fmt_int_ne [simp]: "fmt_int i \<noteq> []"
  by (simp add: fmt_int_def)

lemma fmt_int_chars: "c \<in> set (fmt_int i) \<Longrightarrow> c = CHR ''-'' \<or> dec_digit c"
  using nat_digits_all_digits [of "nat (- i)"] nat_digits_all_digits [of "nat i"]
  by (auto simp: fmt_int_def list_all_iff split: if_splits)

lemma fmt_int_last: "dec_digit (last (fmt_int i))"
  using nat_digits_all_digits [of "nat (- i)"] nat_digits_all_digits [of "nat i"]
    nat_digits_ne [of "nat (- i)"] nat_digits_ne [of "nat i"]
  by (auto simp: fmt_int_def list_all_iff)

lemma dec_digit_not_space: "dec_digit c \<Longrightarrow> \<not> ascii_space c"
  by (auto simp: dec_digit_def ascii_space_def)

lemma no_space_fmt_int [simp]: "no_space (fmt_int i)"
  using fmt_int_chars [of _ i] dec_digit_not_space
  by (fastforce simp: no_space_def ascii_space_def)

lemma newline_notin_fmt_int [simp]: "CHR ''\<newline>'' \<notin> set (fmt_int i)"
  using no_space_fmt_int [of i] by (auto simp: no_space_def ascii_space_def)

lemma drop_cr_fmt_int [simp]: "drop_cr (fmt_int i) = fmt_int i"
  using fmt_int_last [of i] by (auto simp: drop_cr_def dec_digit_def)

lemma trim_space_no_space: "no_space w \<Longrightarrow> trim_space w = w"
  by (rule trim_space_id) (auto simp: no_space_def)

lemma scan_lines_scene_file: "scan_lines (scene_file bs) = map fmt_int bs"
proof (induction bs rule: rev_induct)
  case Nil then show ?case by (simp add: scene_file_def scan_lines_def)
next
  case (snoc b bs)
  have "ends_line (scene_file bs)"
    by (cases bs rule: rev_cases) (auto simp: ends_line_def scene_file_def)
  then have "scan_lines (scene_file bs @ fmt_int b @ [CHR ''\<newline>'']) = scan_lines (scene_file bs) @ [fmt_int b]"
    by (simp add: scan_lines_append_line)
  with snoc show ?case by (simp add: scene_file_def)
qed

lemma parse_frame_numbers_fmt:
  "\<forall>b\<in>set bs. go_int b \<Longrightarrow> parse_frame_numbers (map fmt_int bs) = Inr bs"
  by (induction bs) (auto simp: trim_space_no_space atoi_fmt_int)

lemma ceil_div_bounds:
  fixes tf fpc :: int
  assumes "0 < fpc" and "0 < tf"
  defines "q \<equiv> (tf + fpc - 1) div fpc"
  shows "1 \<le> q" and "(q - 1) * fpc < tf" and "tf \<le> q * fpc"
proof -
  have eq: "tf + fpc - 1 = q * fpc + (tf + fpc - 1) mod fpc"
    by (simp add: q_def)
  have m: "0 \<le> (tf + fpc - 1) mod fpc" "(tf + fpc - 1) mod fpc < fpc"
    using assms(1) by simp_all
  have "(q - 1) * fpc = q * fpc - fpc" by (simp add: algebra_simps)
  with eq m show "(q - 1) * fpc < tf" and "tf \<le> q * fpc" by linarith+
  from this assms show "1 \<le> q"
    by (metis mult_le_0_iff not_le zero_less_mult_iff less_le_trans zero_less_one_class.zero_le_one zle_add1_eq_le add.commute add_0 diff_add_cancel)
qed

lemma scenes_of_fixed:
  fixes fpc tf :: int
  assumes fpc: "0 < fpc" and n: "(int n - 1) * fpc < tf" "tf \<le> int n * fpc" and k: "k < n"
  shows "scenes_of (map (\<lambda>i. int i * fpc) [k..<n]) tf =
         map (\<lambda>i. \<lparr>scene_start = int i * fpc, scene_end = min ((int i + 1) * fpc) tf\<rparr>) [k..<n]"
  using k
proof (induction "n - k" arbitrary: k)
  case 0 then show ?case by simp
next
  case (Suc m)
  show ?case
  proof (cases "Suc k < n")
    case True
    have up: "[k..<n] = k # Suc k # [Suc (Suc k)..<n]"
      using True by (simp add: upt_conv_Cons)
    have up': "[Suc k..<n] = Suc k # [Suc (Suc k)..<n]"
      using True by (simp add: upt_conv_Cons)
    have lt: "int k * fpc < (int k + 1) * fpc" using fpc by (simp add: algebra_simps)
    have "(int k + 1) * fpc \<le> (int n - 1) * fpc"
      using True fpc by (intro mult_right_mono) auto
    with n have mn: "min ((int k + 1) * fpc) tf = (int k + 1) * fpc" by simp
    from Suc.hyps(1) [of "Suc k"] Suc.hyps(2) True
    have IH: "scenes_of (map (\<lambda>i. int i * fpc) [Suc k..<n]) tf =
         map (\<lambda>i. \<lparr>scene_start = int i * fpc, scene_end = min ((int i + 1) * fpc) tf\<rparr>) [Suc k..<n]"
      by simp
    show ?thesis using IH lt mn by (simp add: up up' add.commute)
  next
    case False
    with Suc.prems have kn: "n = Suc k" by simp
    have "int k * fpc < tf" using n kn by simp
    moreover have "tf \<le> (int k + 1) * fpc" using n kn by (simp add: add.commute)
    ultimately show ?thesis using kn by simp
  qed
qed

lemma enumerate_map_upt: "enumerate 0 (map f [0..<n]) = map (\<lambda>i. (i, f i)) [0..<n]"
  by (rule nth_equalityI) (auto simp: enumerate_eq_zip)

text \<open>C7. On the scene file the planner writes (boundaries \<open>i \<cdot> fpc\<close> below the
  total), \<open>LoadScenes\<close> followed by \<open>Chunkify\<close> yields exactly the spec's chunk
  list \<open>(i, i \<cdot> fpc, min((i+1) \<cdot> fpc, total))\<close>.\<close>

theorem planner_refines_spec:
  fixes tf fpc :: int
  assumes fpc: "0 < fpc" and pos: "0 < tf" and rng: "go_int tf"
  shows "map_sum id chunkify (load_scenes (Contents (scene_file (fixed_boundaries tf fpc))) tf)
           = Inr (spec_chunks tf fpc)"
proof -
  define q where "q = (tf + fpc - 1) div fpc"
  define n where "n = nat q"
  have q: "1 \<le> q" "(q - 1) * fpc < tf" "tf \<le> q * fpc"
    using ceil_div_bounds [OF fpc pos] by (simp_all add: q_def)
  have nq: "int n = q" using q(1) by (simp add: n_def)
  let ?bs = "map (\<lambda>i. int i * fpc) [0..<n]"
  have bs: "fixed_boundaries tf fpc = ?bs" by (simp add: fixed_boundaries_def n_def q_def)
  have "\<forall>b\<in>set ?bs. go_int b"
  proof
    fix b assume "b \<in> set ?bs"
    then obtain i where i: "i < n" "b = int i * fpc" by auto
    have le: "int i * fpc \<le> (q - 1) * fpc" using i(1) fpc nq by (intro mult_right_mono) auto
    have "0 \<le> int i * fpc" using fpc by simp
    with le q(2) i(2) rng show "go_int b" unfolding go_int_def by linarith
  qed
  then have "parse_frame_numbers (map fmt_int ?bs) = Inr ?bs"
    by (rule parse_frame_numbers_fmt)
  then have parse: "parse_frame_numbers (scan_lines (scene_file ?bs)) = Inr ?bs"
    by (simp only: scan_lines_scene_file)
  have "sorted ?bs" using fpc by (auto simp: sorted_iff_nth_mono intro: mult_right_mono)
  then have srt: "sort ?bs = ?bs" by (simp add: sorted_sort_id)
  have n0: "0 < n" using q(1) by (simp add: n_def)
  then have ez: "ensure_zero ?bs = ?bs" by (simp add: ensure_zero_def upt_conv_Cons)
  have sc: "scenes_of ?bs tf =
      map (\<lambda>i. \<lparr>scene_start = int i * fpc, scene_end = min ((int i + 1) * fpc) tf\<rparr>) [0..<n]"
    using scenes_of_fixed [OF fpc _ _ n0] q nq by simp
  have spec: "spec_chunks tf fpc =
      map (\<lambda>i. \<lparr>c_idx = int i, c_start = int i * fpc, c_end = min ((int i + 1) * fpc) tf\<rparr>) [0..<n]"
    by (simp add: spec_chunks_def n_def q_def)
  show ?thesis
    by (simp add: load_scenes_def bs parse srt ez sc chunkify_def enumerate_map_upt spec chunk_of_def)
qed

lemma no_space_fmt_u64 [simp]: "no_space (fmt_u64 w)"
  using nat_digits_no_space [of _ "unat w"] by (simp add: no_space_def fmt_u64_def)

lemma fmt_u64_ne [simp]: "fmt_u64 w \<noteq> []"
  by (simp add: fmt_u64_def)

lemma last_fmt_u64: "dec_digit (last (fmt_u64 w))"
  using nat_digits_all_digits [of "unat w"] nat_digits_ne [of "unat w"]
  by (simp add: fmt_u64_def list_all_iff)

lemma no_space_not_newline: "no_space w \<Longrightarrow> CHR ''\<newline>'' \<notin> set w"
  by (auto simp: no_space_def ascii_space_def)

lemma no_space_hd: "no_space w \<Longrightarrow> \<not> ascii_space (hd w)"
  by (auto simp: no_space_def)

lemma no_space_last: "no_space w \<Longrightarrow> \<not> ascii_space (last w)"
  by (auto simp: no_space_def)


lemma format_done_line_body: "format_done_line c = done_line_body c @ [CHR ''\<newline>'']"
  by (simp add: format_done_line_def done_line_body_def)

lemma space_blank: "ascii_space (CHR '' '')"
  by (simp add: ascii_space_def)

lemma str_fields_body:
  "str_fields (done_line_body c) = [fmt_int (cc_idx c), fmt_int (cc_frames c), fmt_u64 (cc_size c)]"
  by (simp add: done_line_body_def fields_word_sep fields_word space_blank)

lemma body_props:
  "CHR ''\<newline>'' \<notin> set (done_line_body c) \<and> trim_space (done_line_body c) = done_line_body c
   \<and> drop_cr (done_line_body c) = done_line_body c \<and> done_line_body c \<noteq> []"
proof -
  have nn: "CHR ''\<newline>'' \<notin> set (done_line_body c)"
    using no_space_not_newline [OF no_space_fmt_int [of "cc_idx c"]]
      no_space_not_newline [OF no_space_fmt_int [of "cc_frames c"]]
      no_space_not_newline [OF no_space_fmt_u64 [of "cc_size c"]]
    by (auto simp: done_line_body_def)
  have hd: "hd (done_line_body c) = hd (fmt_int (cc_idx c))"
    by (simp add: done_line_body_def)
  have lst: "last (done_line_body c) = last (fmt_u64 (cc_size c))"
    using no_space_fmt_u64 [of "cc_size c"] by (simp add: done_line_body_def no_space_def)
  have "trim_space (done_line_body c) = done_line_body c"
    using no_space_hd [OF no_space_fmt_int] no_space_last [OF no_space_fmt_u64]
    by (intro trim_space_id) (simp_all add: hd lst done_line_body_def)
  moreover have "drop_cr (done_line_body c) = done_line_body c"
    using last_fmt_u64 [of "cc_size c"] by (auto simp: drop_cr_def lst dec_digit_def)
  ultimately show ?thesis using nn by (simp add: done_line_body_def)
qed

lemma last_done_line_body: "dec_digit (last (done_line_body c))"
  using last_fmt_u64 [of "cc_size c"] by (simp add: done_line_body_def)

lemma parse_done_line_body:
  "go_int (cc_idx c) \<Longrightarrow> go_int (cc_frames c) \<Longrightarrow> parse_done_line (done_line_body c) = Some c"
  by (simp add: parse_done_line_def str_fields_body atoi_fmt_int)

lemma parse_done_lines_append:
  "parse_done_lines (ls @ ms) = parse_done_lines ls @ parse_done_lines ms"
  by (induction ls) (auto simp: Let_def split: option.splits)

text \<open>C10. Appending a completed chunk to a log that ends in a newline (or is
  empty) and loading it again gives the records read before followed by exactly
  that chunk: the \<open>"%d %d %d\n"\<close> format parses back to the record written.\<close>

theorem resume_append_roundtrip:
  assumes "go_int (cc_idx c)" and "go_int (cc_frames c)"
    and "ends_line s"
  shows "append_done c (Contents s) = Inr (Contents (s @ format_done_line c))
     \<and> get_resume (Contents (s @ format_done_line c)) =
       Inr \<lparr>chunks_done = parse_done_lines (scan_lines s) @ [c]\<rparr>"
proof -
  have "scan_lines (s @ format_done_line c) = scan_lines s @ [done_line_body c]"
    using scan_lines_append_line [OF assms(3), of "done_line_body c"] body_props [of c]
    by (simp add: format_done_line_body)
  then show ?thesis
    using body_props [of c] parse_done_line_body [OF assms(1,2)]
    by (simp add: append_done_def get_resume_def parse_done_lines_append)
qed


lemma fmt_int_nonneg: "0 \<le> i \<Longrightarrow> fmt_int i = nat_digits (nat i)"
  by (simp add: fmt_int_def)

text \<open>C11. A torn last line whose surviving text is a run of digits (a crash in
  the middle of writing a record's index) is not skipped as the spec requires: the
  next record appended after it parses as one record whose index is the torn digits
  followed by that record's index, so a chunk that was never encoded is read as done.\<close>

theorem torn_record_merges:
  assumes s: "ends_line s" and p: "digit_string p"
    and c: "0 \<le> cc_idx c" "go_int (cc_frames c)"
    and rng: "go_int (int (digits_value (p @ fmt_int (cc_idx c))))"
  shows "get_resume (Contents (s @ p @ format_done_line c)) =
     Inr \<lparr>chunks_done = parse_done_lines (scan_lines s) @
            [c\<lparr>cc_idx := int (digits_value (p @ fmt_int (cc_idx c)))\<rparr>]\<rparr>"
proof -
  let ?l = "p @ done_line_body c"
  let ?w = "p @ fmt_int (cc_idx c)"
  have pd: "\<forall>x\<in>set p. dec_digit x" "p \<noteq> []" using p by (auto simp: digit_string_def list_all_iff)
  have nsw: "no_space ?w"
    using pd no_space_fmt_int [of "cc_idx c"] dec_digit_not_space by (auto simp: no_space_def)
  have nl: "CHR ''\<newline>'' \<notin> set ?l"
    using pd body_props [of c] by (auto simp: dec_digit_def)
  have lines: "scan_lines (s @ p @ format_done_line c) = scan_lines s @ [drop_cr ?l]"
    using scan_lines_append_line [OF s nl] by (simp add: format_done_line_body)
  have lst: "dec_digit (last ?l)"
    using last_done_line_body [of c] body_props [of c] by simp
  then have dc: "drop_cr ?l = ?l"
    by (auto simp: drop_cr_def dec_digit_def)
  have tr: "trim_space ?l = ?l"
  proof (rule trim_space_id)
    show "?l \<noteq> []" using pd by simp
    show "\<not> ascii_space (hd ?l)" using pd dec_digit_not_space by (cases p) auto
    show "\<not> ascii_space (last ?l)" using lst by (rule dec_digit_not_space)
  qed
  have flds: "str_fields ?l = [?w, fmt_int (cc_frames c), fmt_u64 (cc_size c)]"
    using fields_word_sep [OF nsw space_blank, of "fmt_int (cc_frames c) @ CHR '' '' # fmt_u64 (cc_size c)"]
    by (simp add: done_line_body_def fields_word_sep fields_word space_blank)
  have wd: "list_all dec_digit ?w"
    using pd nat_digits_all_digits [of "nat (cc_idx c)"] c(1) by (auto simp: fmt_int_nonneg list_all_iff)
  have hd: "hd ?w \<noteq> CHR ''-'' \<and> hd ?w \<noteq> CHR ''+''"
    using pd by (cases p) (auto simp: dec_digit_def)
  have at: "atoi ?w = Some (int (digits_value ?w))"
    using wd hd rng pd by (cases p) (auto simp: atoi_def parse_digits_def)
  show ?thesis
    using pd by (simp add: get_resume_def lines dc tr parse_done_lines_append parse_done_line_def flds at
        atoi_fmt_int c(2))
qed


subsection \<open>Lemmas: the done set and the totals\<close>

lemma fold_done_set:
  "fold (\<lambda>c m. m(cc_idx c \<mapsto> True)) cs m0 k = (if k \<in> cc_idx ` set cs then Some True else m0 k)"
  by (induction cs arbitrary: m0) auto

lemma done_set_iff: "map_bool (done_set r) k \<longleftrightarrow> k \<in> cc_idx ` set (chunks_done r)"
  by (simp add: map_bool_def done_set_def fold_done_set)

lemma fold_size_unat:
  "unat (fold (\<lambda>c t. t + cc_size c) cs t0) = (unat t0 + (\<Sum>c\<leftarrow>cs. unat (cc_size c))) mod 2 ^ 64"
proof (induction cs arbitrary: t0)
  case Nil
  then show ?case using unsigned_less [of t0, where ?'a = nat] by simp
next
  case (Cons c cs)
  then show ?case by (simp add: unat_word_ariths mod_add_left_eq add.assoc)
qed

lemma total_encoded_size_unat:
  "unat (total_encoded_size r) = (\<Sum>c\<leftarrow>chunks_done r. unat (cc_size c)) mod 2 ^ 64"
  by (simp add: total_encoded_size_def fold_size_unat)

subsection \<open>Witnesses\<close>

theorem load_scenes_partition_witness:
  "parse_frame_numbers (scan_lines ''0\<newline>720\<newline>'') = Inr [0, 720] \<and> 0 < (1000::int)
   \<and> (\<exists>ss. load_scenes (Contents ''0\<newline>720\<newline>'') 1000 = Inr ss \<and> chunk_partition (chunkify ss) 1000)"
proof -
  have p: "parse_frame_numbers (scan_lines ''0\<newline>720\<newline>'') = Inr [0, 720]"
    by (simp add: go_text_eval)
  show ?thesis using load_scenes_partition [OF p] p by simp
qed

theorem planner_refines_spec_witness:
  "0 < (720::int) \<and> 0 < (5000::int) \<and> go_int 5000
   \<and> map_sum id chunkify (load_scenes (Contents (scene_file (fixed_boundaries 5000 720))) 5000)
       = Inr (spec_chunks 5000 720)"
  using planner_refines_spec [of 720 5000] by (simp add: go_int_def)

theorem resume_append_roundtrip_witness:
  "go_int 7 \<and> go_int 240 \<and> ends_line []
   \<and> append_done \<lparr>cc_idx = 7, cc_frames = 240, cc_size = 1000\<rparr> (Contents [])
       = Inr (Contents (format_done_line \<lparr>cc_idx = 7, cc_frames = 240, cc_size = 1000\<rparr>))
   \<and> get_resume (Contents (format_done_line \<lparr>cc_idx = 7, cc_frames = 240, cc_size = 1000\<rparr>))
       = Inr \<lparr>chunks_done = [\<lparr>cc_idx = 7, cc_frames = 240, cc_size = 1000\<rparr>]\<rparr>"
  using resume_append_roundtrip [of "\<lparr>cc_idx = 7, cc_frames = 240, cc_size = 1000\<rparr>" "[]"]
  by (simp add: go_int_def ends_line_def scan_lines_def)

theorem torn_record_merges_witness:
  "get_resume (Contents (''3'' @ format_done_line \<lparr>cc_idx = 7, cc_frames = 240, cc_size = 1000\<rparr>))
     = Inr \<lparr>chunks_done = [\<lparr>cc_idx = 37, cc_frames = 240, cc_size = 1000\<rparr>]\<rparr>"
proof -
  have h: "ends_line []" "digit_string ''3''" "0 \<le> (7::int)" "go_int 240"
    "go_int (int (digits_value (''3'' @ fmt_int 7)))"
    by (simp_all add: ends_line_def digit_string_def go_text_eval)
  have v: "digits_value (CHR ''3'' # fmt_int 7) = 37"
    by (simp add: go_text_eval)
  show ?thesis
    using torn_record_merges [OF h(1,2), of "\<lparr>cc_idx = 7, cc_frames = 240, cc_size = 1000\<rparr>"] h(3-5)
    by (simp add: v scan_lines_def)
qed

end
