(* ===== verification/Admission.thy ===== *)
theory Admission
  imports Reel_Prelude
begin

text \<open>
  The admission policy: \<open>CapWorkers\<close>, \<open>memoryPerWorker\<close> and \<open>CalculatePermits\<close>
  of \<open>src/internal/encode/permits.go\<close>, and \<open>calculateThreadsPerWorker\<close> of the
  encode package (\<open>src/unnamed/part_002\<close>).  The host readings the code takes from
  package util (\<open>AvailableMemoryBytes\<close>, \<open>PhysicalCores\<close>, \<open>LogicalCores\<close>, not
  among the sources) are parameters.  \<open>uint64(float64(available) * 0.7)\<close> is
  computed exactly as \<open>\<lfloor>available \<cdot> 7/10\<rfloor>\<close>; Go's float64 product can be one
  byte lower, which moves a worker boundary by at most one byte of memory.
  The lemmas bound the worker count, bound the memory the admitted workers are
  estimated to use, and show that the thread count is the spec's clamp formula.
\<close>

subsection \<open>Go integer division\<close>

text \<open>Go's \<open>/\<close> on \<open>int\<close> truncates towards zero.\<close>

definition go_div :: "int \<Rightarrow> int \<Rightarrow> int" where
  "go_div a b = sgn a * sgn b * (\<bar>a\<bar> div \<bar>b\<bar>)"

subsection \<open>CapWorkers\<close>

definition mem_per_worker_4k :: nat where "mem_per_worker_4k = 5 * 2 ^ 30"
definition mem_per_worker_1080p :: nat where "mem_per_worker_1080p = 2 * 2 ^ 30"
definition mem_per_worker_sd :: nat where "mem_per_worker_sd = 512 * 2 ^ 20"

definition memory_per_worker :: "u32 \<Rightarrow> u32 \<Rightarrow> nat" where
  "memory_per_worker width height =
     (if 3840 \<le> unat width \<or> 2160 \<le> unat height then mem_per_worker_4k
      else if 1920 \<le> unat width \<or> 1080 \<le> unat height then mem_per_worker_1080p
      else mem_per_worker_sd)"

text \<open>\<open>usable := uint64(float64(available) * MemoryFraction)\<close>.\<close>

definition usable_memory :: "u64 \<Rightarrow> nat" where
  "usable_memory available = unat available * 7 div 10"

text \<open>\<open>CapWorkers(requested, width, height)\<close> with the reading of available memory
  as a parameter; a reading of 0 means "unknown" and leaves the request alone.\<close>

definition cap_workers :: "int \<Rightarrow> u32 \<Rightarrow> u32 \<Rightarrow> u64 \<Rightarrow> int \<times> bool" where
  "cap_workers requested width height available =
     (let mem = memory_per_worker width height;
          max_by_memory = (if 0 < unat available
                           then max (int (usable_memory available div mem)) 1
                           else requested)
      in if requested > max_by_memory then (max_by_memory, True) else (requested, False))"

text \<open>\<open>CalculatePermits(workers, buffer)\<close>.\<close>

definition calculate_permits :: "int \<Rightarrow> int \<Rightarrow> int" where
  "calculate_permits workers buffer = max (workers + buffer) 1"

subsection \<open>calculateThreadsPerWorker\<close>

definition max_threads :: "u32 \<Rightarrow> int" where
  "max_threads width = (if 3840 \<le> unat width then 16 else if 1920 \<le> unat width then 10 else 6)"

definition calculate_threads_per_worker :: "int \<Rightarrow> u32 \<Rightarrow> int \<Rightarrow> int \<Rightarrow> int" where
  "calculate_threads_per_worker workers width physical logical =
     (if workers \<le> 0 then 1
      else let has_smt = logical > physical;
               mx = max_threads width;
               t = go_div physical workers;
               t' = (if has_smt \<and> t < mx then t + 1 else t)
           in max 1 (min t' mx))"

text \<open>The spec's rule (section 4.3): \<open>T = clamp(physical / W + [logical > physical], 1, T_max)\<close>,
  with \<open>T_max\<close> 6, 10 and 16 for the SD, HD and UHD width tiers (boundaries 1920 and 3840,
  section 6).\<close>

definition spec_t_max :: "u32 \<Rightarrow> int" where
  "spec_t_max width = (if unat width < 1920 then 6 else if unat width < 3840 then 10 else 16)"

definition spec_threads :: "int \<Rightarrow> u32 \<Rightarrow> int \<Rightarrow> int \<Rightarrow> int" where
  "spec_threads workers width physical logical =
     max 1 (min (physical div workers + (if logical > physical then 1 else 0)) (spec_t_max width))"


subsection \<open>Lemmas\<close>

lemma go_div_nonneg: "0 \<le> a \<Longrightarrow> 0 < b \<Longrightarrow> go_div a b = a div b"
  by (cases "a = 0") (auto simp: go_div_def)

lemma max_threads_ge: "6 \<le> max_threads width"
  by (simp add: max_threads_def)

text \<open>C17. For a positive worker count and a non-negative physical core count,
  \<open>calculateThreadsPerWorker\<close> equals the spec's rule
  \<open>clamp(physical / W + [logical > physical], 1, T_max(width))\<close>: adding the SMT bonus
  only below the maximum changes nothing after the clamp.\<close>

theorem threads_per_worker_spec:
  assumes "0 < workers" and "0 \<le> physical"
  shows "calculate_threads_per_worker workers width physical logical = spec_threads workers width physical logical"
  using assms by (auto simp: calculate_threads_per_worker_def spec_threads_def spec_t_max_def max_threads_def
      go_div_nonneg Let_def)

lemma threads_per_worker_range:
  "1 \<le> calculate_threads_per_worker workers width physical logical
   \<and> calculate_threads_per_worker workers width physical logical \<le> max_threads width"
  using max_threads_ge [of width] by (simp add: calculate_threads_per_worker_def Let_def)

text \<open>C18. For a request of at least one worker, \<open>CapWorkers\<close> returns between one
  and the requested number of workers, and reports "capped" exactly when it returns
  fewer than requested.\<close>

theorem cap_workers_bounds:
  assumes "1 \<le> requested" and "cap_workers requested width height available = (n, capped)"
  shows "1 \<le> n \<and> n \<le> requested \<and> (capped \<longleftrightarrow> n < requested)"
  using assms by (auto simp: cap_workers_def Let_def split: if_splits)

lemma mem_pos: "0 < memory_per_worker width height"
  by (simp add: memory_per_worker_def mem_per_worker_4k_def mem_per_worker_1080p_def mem_per_worker_sd_def)

text \<open>C19. When the host reports its available memory, the admitted workers' estimated
  memory \<open>W \<cdot> memoryPerWorker\<close> stays within 70\<percent> of it, except that one worker
  is always admitted.\<close>

theorem cap_workers_memory:
  assumes "0 < unat available" and "1 \<le> requested"
    and "cap_workers requested width height available = (n, capped)"
  shows "nat n * memory_per_worker width height
           \<le> max (usable_memory available) (memory_per_worker width height)"
proof -
  let ?m = "memory_per_worker width height"
  let ?q = "usable_memory available div ?m"
  have le: "n \<le> max (int ?q) 1" and one: "1 \<le> n"
    using assms by (auto simp: cap_workers_def Let_def split: if_splits)
  show ?thesis
  proof (cases "1 \<le> ?q")
    case True
    with le have "nat n \<le> ?q" by simp
    then have "nat n * ?m \<le> ?q * ?m" by simp
    also have "\<dots> \<le> usable_memory available" by simp
    finally show ?thesis by simp
  next
    case False
    with le one have "nat n = 1" by simp
    then show ?thesis by simp
  qed
qed

subsection \<open>Witnesses\<close>

text \<open>Spec scenario S3: 12 GiB available, a 3840x2160 source, eight workers requested.\<close>

theorem cap_workers_memory_witness:
  "cap_workers 8 3840 2160 (12 * 2 ^ 30) = (1, True)
   \<and> nat 1 * memory_per_worker 3840 2160 \<le> max (usable_memory (12 * 2 ^ 30)) (memory_per_worker 3840 2160)"
proof -
  have c: "cap_workers 8 3840 2160 (12 * 2 ^ 30) = (1, True)"
    by (simp add: cap_workers_def memory_per_worker_def usable_memory_def mem_per_worker_4k_def)
  have "0 < unat (12 * 2 ^ 30 :: u64)" by simp
  from cap_workers_memory [OF this _ c] c show ?thesis by simp
qed


theorem threads_per_worker_spec_witness:
  "calculate_threads_per_worker 4 1920 16 32 = spec_threads 4 1920 16 32
   \<and> spec_threads 4 1920 16 32 = 5"
  using threads_per_worker_spec [of 4 16 1920 32] by (simp add: spec_threads_def spec_t_max_def)

theorem cap_workers_bounds_witness:
  "cap_workers 8 1920 1080 (8 * 2 ^ 30) = (2, True) \<and> 1 \<le> (2::int) \<and> 2 \<le> (8::int) \<and> 2 < (8::int)"
proof -
  have c: "cap_workers 8 1920 1080 (8 * 2 ^ 30) = (2, True)"
    by (simp add: cap_workers_def memory_per_worker_def usable_memory_def mem_per_worker_1080p_def)
  from cap_workers_bounds [OF _ c] c show ?thesis by simp
qed

end
