(* ===== verification/Streaming.thy ===== *)
theory Streaming
  imports Chunk
begin

text \<open>
  The per-worker streaming encoder, \<open>encodeChunkStreaming\<close> of the encode package
  (\<open>src/unnamed/part_002\<close>): one SVT-AV1 process per chunk, fed one decoded frame at a
  time from a single reusable buffer.  What the outside world does is an
  \<open>enc_env\<close>: whether the stdin pipe and the process start, which frames the decoder
  extracts and which writes succeed, whether the encoder exits cleanly and what
  \<open>os.Stat\<close> reports.  The context's cancellation as seen at loop iteration \<open>i\<close> is
  a parameter \<open>cancel i\<close>.
  One loop iteration is \<open>frame_iter\<close> and the code after the loop is
  \<open>finish_encode\<close>; the worker pool steps its workers with the same two functions.
  The lemmas characterise every exit: on success exactly the chunk's frames were
  written, in order; the frames written are always a prefix of the chunk's; a
  cancellation visible at frame \<open>j\<close> stops the worker before frame \<open>j\<close>.
\<close>

record enc_env =
  pipe_ok :: bool
  start_ok :: bool
  extract_ok :: "int \<Rightarrow> bool"
  write_ok :: "int \<Rightarrow> bool"
  exit_ok :: bool
  out_size :: "u64 option"

datatype stream_error =
    Cancelled
  | PipeFailed
  | StartFailed
  | ExtractFailed int
  | WriteFailed
  | EncoderFailed
  | StatFailed
  | SourceFailed

text \<open>\<open>worker.EncodeResult\<close> (the worker package is not among the sources; its fields
  are the ones \<open>encodeChunkStreaming\<close> fills).\<close>

record encode_result =
  er_idx :: int
  er_frames :: int
  er_size :: u64
  er_error :: "stream_error option"

definition fail_result :: "chunk \<Rightarrow> stream_error \<Rightarrow> encode_result" where
  "fail_result ch e = \<lparr>er_idx = c_idx ch, er_frames = 0, er_size = 0, er_error = Some e\<rparr>"

text \<open>\<open>for i := 0; i < frameCount; i++\<close> with \<open>frameCount = ch.Frames()\<close>.\<close>

definition frame_count :: "chunk \<Rightarrow> nat" where
  "frame_count ch = nat (chunk_frames ch)"

datatype iter_outcome = Continue | Break | Stop stream_error

text \<open>One iteration: the cancellation check, \<open>ExtractFrame(src, start + i, ...)\<close>,
  then \<open>stdin.Write(frameBuf)\<close>, whose failure breaks out of the loop.\<close>

definition frame_iter :: "enc_env \<Rightarrow> chunk \<Rightarrow> bool \<Rightarrow> nat \<Rightarrow> iter_outcome" where
  "frame_iter env ch cancelled i =
     (let f = c_start ch + int i in
      if cancelled then Stop Cancelled
      else if \<not> extract_ok env f then Stop (ExtractFailed f)
      else if \<not> write_ok env f then Break
      else Continue)"

text \<open>After the loop: close stdin, report a write error, else wait for the encoder and
  stat its output file.\<close>

definition finish_encode :: "enc_env \<Rightarrow> chunk \<Rightarrow> bool \<Rightarrow> encode_result" where
  "finish_encode env ch write_err =
     (if write_err then fail_result ch WriteFailed
      else if \<not> exit_ok env then fail_result ch EncoderFailed
      else case out_size env of
             None \<Rightarrow> fail_result ch StatFailed
           | Some sz \<Rightarrow> \<lparr>er_idx = c_idx ch, er_frames = chunk_frames ch, er_size = sz, er_error = None\<rparr>)"

text \<open>The loop from iteration \<open>i\<close> with \<open>k\<close> iterations left; it returns the frames
  written to the encoder, in order, and the result.\<close>

fun stream_loop :: "enc_env \<Rightarrow> chunk \<Rightarrow> (nat \<Rightarrow> bool) \<Rightarrow> nat \<Rightarrow> nat \<Rightarrow> int list \<times> encode_result" where
  "stream_loop env ch cancel i 0 = ([], finish_encode env ch False)"
| "stream_loop env ch cancel i (Suc k) =
     (case frame_iter env ch (cancel i) i of
        Stop e \<Rightarrow> ([], fail_result ch e)
      | Break \<Rightarrow> ([], finish_encode env ch True)
      | Continue \<Rightarrow> (let (fs, r) = stream_loop env ch cancel (Suc i) k in ((c_start ch + int i) # fs, r)))"

definition encode_chunk_streaming :: "enc_env \<Rightarrow> chunk \<Rightarrow> (nat \<Rightarrow> bool) \<Rightarrow> int list \<times> encode_result" where
  "encode_chunk_streaming env ch cancel =
     (if \<not> pipe_ok env then ([], fail_result ch PipeFailed)
      else if \<not> start_ok env then ([], fail_result ch StartFailed)
      else stream_loop env ch cancel 0 (frame_count ch))"

text \<open>The conditions under which the chunk succeeds, stated without the loop.\<close>

definition stream_ok :: "enc_env \<Rightarrow> chunk \<Rightarrow> (nat \<Rightarrow> bool) \<Rightarrow> bool" where
  "stream_ok env ch cancel \<longleftrightarrow>
     pipe_ok env \<and> start_ok env
     \<and> list_all (\<lambda>i. \<not> cancel i \<and> extract_ok env (c_start ch + int i) \<and> write_ok env (c_start ch + int i))
          [0..<frame_count ch]
     \<and> exit_ok env \<and> out_size env \<noteq> None"


text \<open>A concrete environment in which everything succeeds, and a three-frame chunk.\<close>

definition env_ok :: enc_env where
  "env_ok = \<lparr>pipe_ok = True, start_ok = True, extract_ok = (\<lambda>_. True), write_ok = (\<lambda>_. True),
             exit_ok = True, out_size = Some 5000\<rparr>"

definition chunk_3 :: chunk where
  "chunk_3 = \<lparr>c_idx = 0, c_start = 10, c_end = 13\<rparr>"

subsection \<open>Lemmas\<close>

lemma fail_result_simps [simp]:
  "er_idx (fail_result ch e) = c_idx ch" "er_error (fail_result ch e) = Some e"
  by (simp_all add: fail_result_def)

lemma finish_encode_idx [simp]: "er_idx (finish_encode env ch w) = c_idx ch"
  by (simp add: finish_encode_def split: option.splits)

lemma finish_encode_ok:
  "er_error (finish_encode env ch w) = None \<longleftrightarrow> \<not> w \<and> exit_ok env \<and> out_size env \<noteq> None"
  by (auto simp: finish_encode_def split: option.splits)

lemma frame_iter_Continue:
  "frame_iter env ch c i = Continue \<longleftrightarrow>
     \<not> c \<and> extract_ok env (c_start ch + int i) \<and> write_ok env (c_start ch + int i)"
  by (simp add: frame_iter_def Let_def)

lemma stream_loop_idx: "er_idx (snd (stream_loop env ch cancel i k)) = c_idx ch"
  by (induction k arbitrary: i)
     (auto simp: split_beta split: iter_outcome.splits)

lemma stream_loop_prefix:
  "stream_loop env ch cancel i k = (fs, r) \<Longrightarrow> \<exists>m\<le>k. fs = map (\<lambda>j. c_start ch + int j) [i..<i + m]"
proof (induction k arbitrary: i fs r)
  case 0 then show ?case by simp
next
  case (Suc k)
  show ?case
  proof (cases "frame_iter env ch (cancel i) i")
    case Continue
    obtain fs' r' where rec: "stream_loop env ch cancel (Suc i) k = (fs', r')" by fastforce
    with Suc.prems Continue have fs: "fs = (c_start ch + int i) # fs'" by simp
    from Suc.IH [OF rec] obtain m where "m \<le> k" "fs' = map (\<lambda>j. c_start ch + int j) [Suc i..<Suc i + m]"
      by blast
    with fs show ?thesis by (intro exI [of _ "Suc m"]) (simp add: upt_conv_Cons)
  qed (use Suc.prems in auto)
qed

lemma stream_loop_ok:
  "stream_loop env ch cancel i k = (fs, r) \<Longrightarrow>
   er_error r = None \<longleftrightarrow>
     (\<forall>j\<in>{i..<i + k}. \<not> cancel j \<and> extract_ok env (c_start ch + int j) \<and> write_ok env (c_start ch + int j))
     \<and> exit_ok env \<and> out_size env \<noteq> None"
proof (induction k arbitrary: i fs r)
  case 0 then show ?case by (auto simp: finish_encode_ok)
next
  case (Suc k)
  show ?case
  proof (cases "frame_iter env ch (cancel i) i")
    case Continue
    obtain fs' r' where rec: "stream_loop env ch cancel (Suc i) k = (fs', r')" by fastforce
    with Suc.prems Continue have "r = r'" by simp
    moreover have "{i..<i + Suc k} = insert i {Suc i..<Suc i + k}" by auto
    ultimately show ?thesis using Suc.IH [OF rec] Continue by (auto simp: frame_iter_Continue)
  next
    case Break
    with Suc.prems have "r = finish_encode env ch True" by simp
    moreover have "i \<in> {i..<i + Suc k}" by simp
    ultimately show ?thesis using Break by (auto simp: finish_encode_ok frame_iter_def Let_def split: if_splits)
  next
    case (Stop e)
    with Suc.prems have "r = fail_result ch e" by simp
    moreover have "i \<in> {i..<i + Suc k}" by simp
    ultimately show ?thesis using Stop by (auto simp: frame_iter_def Let_def split: if_splits)
  qed
qed

lemma stream_loop_success:
  "stream_loop env ch cancel i k = (fs, r) \<Longrightarrow> er_error r = None \<Longrightarrow>
   fs = map (\<lambda>j. c_start ch + int j) [i..<i + k] \<and> r = finish_encode env ch False"
proof (induction k arbitrary: i fs r)
  case 0 then show ?case by simp
next
  case (Suc k)
  show ?case
  proof (cases "frame_iter env ch (cancel i) i")
    case Continue
    obtain fs' r' where rec: "stream_loop env ch cancel (Suc i) k = (fs', r')" by fastforce
    with Suc.prems Continue have "fs = (c_start ch + int i) # fs'" "r = r'" by simp_all
    with Suc.IH [OF rec] Suc.prems(2) show ?thesis by (simp add: upt_conv_Cons)
  next
    case Break
    with Suc.prems show ?thesis by (auto simp: finish_encode_def)
  next
    case (Stop e)
    with Suc.prems show ?thesis by auto
  qed
qed

lemma stream_loop_cancel:
  "stream_loop env ch cancel i k = (fs, r) \<Longrightarrow> cancel j \<Longrightarrow> i \<le> j \<Longrightarrow> j < i + k \<Longrightarrow>
   length fs \<le> j - i \<and> er_error r \<noteq> None"
proof (induction k arbitrary: i fs r)
  case 0 then show ?case by simp
next
  case (Suc k)
  show ?case
  proof (cases "frame_iter env ch (cancel i) i")
    case Continue
    then have "j \<noteq> i" using Suc.prems(2) by (auto simp: frame_iter_Continue)
    obtain fs' r' where rec: "stream_loop env ch cancel (Suc i) k = (fs', r')" by fastforce
    with Suc.prems Continue have "fs = (c_start ch + int i) # fs'" "r = r'" by simp_all
    with Suc.IH [OF rec Suc.prems(2)] Suc.prems(3,4) \<open>j \<noteq> i\<close> show ?thesis by auto
  next
    case Break
    with Suc.prems show ?thesis by (auto simp: finish_encode_def)
  next
    case (Stop e)
    with Suc.prems show ?thesis by auto
  qed
qed


text \<open>C12. A chunk's encode succeeds exactly when the pipe and the process start, no
  cancellation is seen and every frame is extracted and written, and the encoder exits
  cleanly with a stat-able output; then exactly the chunk's frames \<open>start..end-1\<close>
  were written to the encoder, in order, and the result carries the chunk's index,
  its frame count \<open>end - start\<close> and the output file's size.\<close>

theorem encode_streaming_success:
  assumes run: "encode_chunk_streaming env ch cancel = (fs, r)"
  shows "(er_error r = None \<longleftrightarrow> stream_ok env ch cancel)
     \<and> (er_error r = None \<longrightarrow> fs = map (\<lambda>i. c_start ch + int i) [0..<frame_count ch]
           \<and> er_idx r = c_idx ch \<and> er_frames r = chunk_frames ch \<and> out_size env = Some (er_size r))"
proof (cases "pipe_ok env \<and> start_ok env")
  case True
  then have loop: "stream_loop env ch cancel 0 (frame_count ch) = (fs, r)"
    using run by (simp add: encode_chunk_streaming_def)
  have ok: "er_error r = None \<longleftrightarrow> stream_ok env ch cancel"
    using stream_loop_ok [OF loop] True by (auto simp: stream_ok_def list_all_iff)
  have "er_error r = None \<Longrightarrow> fs = map (\<lambda>i. c_start ch + int i) [0..<frame_count ch]
           \<and> er_idx r = c_idx ch \<and> er_frames r = chunk_frames ch \<and> out_size env = Some (er_size r)"
    using stream_loop_success [OF loop]
    by (auto simp: finish_encode_def split: option.splits if_splits)
  with ok show ?thesis by blast
next
  case False
  with run show ?thesis by (auto simp: encode_chunk_streaming_def stream_ok_def split: if_splits)
qed

text \<open>C16. Whatever happens, the result is reported under the chunk's own index and
  the frames written to the encoder are a prefix of \<open>start..end-1\<close>: no frame of
  another chunk and none out of order is ever sent.\<close>

theorem encode_streaming_prefix:
  assumes run: "encode_chunk_streaming env ch cancel = (fs, r)"
  shows "er_idx r = c_idx ch \<and> (\<exists>m\<le>frame_count ch. fs = map (\<lambda>i. c_start ch + int i) [0..<m])"
proof (cases "pipe_ok env \<and> start_ok env")
  case True
  then have loop: "stream_loop env ch cancel 0 (frame_count ch) = (fs, r)"
    using run by (simp add: encode_chunk_streaming_def)
  show ?thesis using stream_loop_prefix [OF loop] stream_loop_idx [of env ch cancel 0 "frame_count ch"] loop
    by auto
next
  case False
  with run show ?thesis by (auto simp: encode_chunk_streaming_def split: if_splits)
qed

text \<open>C20. A cancellation visible at the top of iteration \<open>j\<close> stops the worker
  within that frame boundary: at most the \<open>j\<close> frames before it were written and the
  chunk does not succeed.\<close>

theorem encode_streaming_cancel:
  assumes run: "encode_chunk_streaming env ch cancel = (fs, r)"
    and "cancel j" and "j < frame_count ch"
  shows "length fs \<le> j \<and> er_error r \<noteq> None"
proof (cases "pipe_ok env \<and> start_ok env")
  case True
  then have loop: "stream_loop env ch cancel 0 (frame_count ch) = (fs, r)"
    using run by (simp add: encode_chunk_streaming_def)
  from stream_loop_cancel [OF loop assms(2)] assms(3) show ?thesis by simp
next
  case False
  with run show ?thesis by (auto simp: encode_chunk_streaming_def split: if_splits)
qed



subsection \<open>Witnesses\<close>

lemma encode_chunk_3_ok:
  "encode_chunk_streaming env_ok chunk_3 (\<lambda>_. False)
     = ([10, 11, 12], \<lparr>er_idx = 0, er_frames = 3, er_size = 5000, er_error = None\<rparr>)"
  by (simp add: encode_chunk_streaming_def env_ok_def chunk_3_def frame_count_def chunk_frames_def
      eval_nat_numeral frame_iter_def finish_encode_def)

lemma encode_chunk_3_cancel:
  "encode_chunk_streaming env_ok chunk_3 (\<lambda>i. 1 \<le> i) = ([10], fail_result chunk_3 Cancelled)"
  by (simp add: encode_chunk_streaming_def env_ok_def chunk_3_def frame_count_def chunk_frames_def
      eval_nat_numeral frame_iter_def finish_encode_def)

theorem encode_streaming_success_witness:
  "encode_chunk_streaming env_ok chunk_3 (\<lambda>_. False)
     = ([10, 11, 12], \<lparr>er_idx = 0, er_frames = 3, er_size = 5000, er_error = None\<rparr>)
   \<and> stream_ok env_ok chunk_3 (\<lambda>_. False)"
  using encode_streaming_success [OF encode_chunk_3_ok] encode_chunk_3_ok by simp

theorem encode_streaming_prefix_witness:
  "encode_chunk_streaming env_ok chunk_3 (\<lambda>i. 1 \<le> i) = ([10], fail_result chunk_3 Cancelled)
   \<and> (\<exists>m\<le>frame_count chunk_3. [10] = map (\<lambda>i. c_start chunk_3 + int i) [0..<m])"
  using encode_streaming_prefix [OF encode_chunk_3_cancel] encode_chunk_3_cancel by simp

theorem encode_streaming_cancel_witness:
  "encode_chunk_streaming env_ok chunk_3 (\<lambda>i. 1 \<le> i) = ([10], fail_result chunk_3 Cancelled)
   \<and> 1 < frame_count chunk_3 \<and> length [10::int] \<le> 1"
proof -
  have "1 < frame_count chunk_3" by (simp add: frame_count_def chunk_3_def chunk_frames_def)
  with encode_streaming_cancel [OF encode_chunk_3_cancel, of 1] encode_chunk_3_cancel show ?thesis by simp
qed

end
