(* ===== verification/Pool_Model.thy ===== *)
theory Pool_Model
  imports Streaming Admission
begin

text \<open>
  The parallel encode pipeline, \<open>EncodeAll\<close> and \<open>streamingWorker\<close> of the encode
  package (\<open>src/unnamed/part_002\<close>), as a state machine.  The goroutines of
  \<open>EncodeAll\<close> -- the dispatcher, the workers and the result collector -- share the
  semaphore \<open>sem\<close>, the buffered channels \<open>chunkChan\<close> (capacity \<open>permits\<close>) and
  \<open>resultChan\<close> (capacity \<open>len(remainingChunks)\<close>), the atomic first error
  \<open>encodeErr\<close>, the progress record and the resume log.  A \<open>pool\<close> is that shared
  state together with the program counter of each goroutine; an \<open>event\<close> is one
  atomic action of one goroutine (a channel operation, a semaphore operation, one
  frame of a worker's encode, or the context being cancelled), and \<open>pool_step\<close>
  performs it, returning \<open>None\<close> when the goroutine is blocked.  Every interleaving
  of the Go program is a sequence of events.  A worker encodes a chunk with the
  functions \<open>frame_iter\<close> and \<open>finish_encode\<close> of \<open>encodeChunkStreaming\<close>, one
  frame per event, so that the context can be cancelled between any two frames.

  The semaphore (package worker, not among the sources) is a counter of free
  permits, as the spec describes it (section 4.3); the resume log written by
  \<open>AppendDone\<close> is the list of records appended in this run; the progress callback's
  reports are the list of snapshots passed to it.
\<close>

subsection \<open>State\<close>

text \<open>\<open>worker.Progress\<close> as \<open>EncodeAll\<close> fills it.\<close>

record progress =
  pr_chunks_total :: int
  pr_chunks_complete :: int
  pr_frames_total :: int
  pr_frames_complete :: int
  pr_bytes_complete :: u64

text \<open>The dispatcher goroutine: at the top of its \<open>range remainingChunks\<close> loop, in
  the \<open>select\<close> acquiring a permit for chunk \<open>ch\<close>, in the \<open>select\<close> sending
  \<open>ch\<close> with the permit held, or returned (and \<open>chunkChan\<close> closed).\<close>

datatype disp_state = DTop | DAcquire chunk | DHeld chunk | DDone

text \<open>A worker goroutine: before \<open>ThrVidSrc\<close>; in the drain loop of a worker whose
  source failed (receiving, or about to release the received chunk's permit); at its
  \<open>range chunkChan\<close>; holding a received chunk before its checks; encoding frame
  \<open>i\<close> of a chunk; about to release the permit with the result to send, if any;
  about to send a result; returned.\<close>

datatype wstate =
    WInit
  | WDrain
  | WDrainRel
  | WIdle
  | WGot chunk
  | WEnc chunk nat
  | WRel chunk "encode_result option"
  | WSend encode_result
  | WExit

record pool =
  p_pending :: "chunk list"
  p_disp :: disp_state
  p_sem :: nat
  p_chan :: "chunk list"
  p_workers :: "wstate list"
  p_results :: "encode_result list"
  p_progress :: progress
  p_err :: "stream_error option"
  p_log :: "chunk_comp list"
  p_snaps :: "progress list"
  p_cancel :: bool

text \<open>What the pool does not decide: the outcome of each chunk's encode, whether each
  worker's \<open>ThrVidSrc\<close> succeeds, and the two channel capacities.\<close>

record pool_cfg =
  pc_env :: "chunk \<Rightarrow> enc_env"
  pc_src_ok :: "nat \<Rightarrow> bool"
  pc_chan_cap :: nat
  pc_res_cap :: nat

datatype event = ECancel | EDisp | EAcquire | EAbort | ESend | EWorker nat | ECollect

subsection \<open>Atomic actions\<close>

text \<open>\<open>setError\<close>: \<open>encodeErr.CompareAndSwap(nil, &err)\<close> keeps the first error.\<close>

definition latch :: "stream_error option \<Rightarrow> stream_error \<Rightarrow> stream_error option" where
  "latch cur e = (case cur of None \<Rightarrow> Some e | Some e' \<Rightarrow> Some e')"

definition set_worker :: "pool \<Rightarrow> nat \<Rightarrow> wstate \<Rightarrow> pool" where
  "set_worker s w ws = s\<lparr>p_workers := (p_workers s)[w := ws]\<rparr>"

text \<open>The dispatcher's loop head: take the next chunk, return on cancellation or on a
  latched error.\<close>

definition disp_top :: "pool \<Rightarrow> pool" where
  "disp_top s =
     (case p_pending s of
        [] \<Rightarrow> s\<lparr>p_disp := DDone\<rparr>
      | ch # rest \<Rightarrow>
          if p_cancel s then s\<lparr>p_disp := DDone, p_pending := rest\<rparr>
          else if p_err s \<noteq> None then s\<lparr>p_disp := DDone, p_pending := rest\<rparr>
          else s\<lparr>p_disp := DAcquire ch, p_pending := rest\<rparr>)"

definition disp_step :: "pool_cfg \<Rightarrow> pool \<Rightarrow> event \<Rightarrow> pool option" where
  "disp_step cfg s e =
     (case (p_disp s, e) of
        (DTop, EDisp) \<Rightarrow> Some (disp_top s)
      | (DAcquire ch, EAcquire) \<Rightarrow>
          if 0 < p_sem s then Some (s\<lparr>p_sem := p_sem s - 1, p_disp := DHeld ch\<rparr>) else None
      | (DAcquire ch, EAbort) \<Rightarrow> if p_cancel s then Some (s\<lparr>p_disp := DDone\<rparr>) else None
      | (DHeld ch, ESend) \<Rightarrow>
          if length (p_chan s) < pc_chan_cap cfg
          then Some (s\<lparr>p_chan := p_chan s @ [ch], p_disp := DTop\<rparr>) else None
      | (DHeld ch, EAbort) \<Rightarrow>
          if p_cancel s then Some (s\<lparr>p_sem := Suc (p_sem s), p_disp := DDone\<rparr>) else None
      | _ \<Rightarrow> None)"

text \<open>A worker's receive on \<open>chunkChan\<close>: a buffered chunk, or the end of the
  \<open>range\<close> once the channel is closed and empty.\<close>

definition worker_recv :: "pool \<Rightarrow> nat \<Rightarrow> (chunk \<Rightarrow> wstate) \<Rightarrow> wstate \<Rightarrow> pool option" where
  "worker_recv s w got closed =
     (case p_chan s of
        ch # rest \<Rightarrow> Some (set_worker (s\<lparr>p_chan := rest\<rparr>) w (got ch))
      | [] \<Rightarrow> if p_disp s = DDone then Some (set_worker s w closed) else None)"

text \<open>The checks after \<open>ch := <-chunkChan\<close>, then the start of
  \<open>encodeChunkStreaming\<close> (stdin pipe, process start).\<close>

definition worker_got :: "pool_cfg \<Rightarrow> pool \<Rightarrow> chunk \<Rightarrow> wstate" where
  "worker_got cfg s ch =
     (let env = pc_env cfg ch in
      if p_cancel s then WRel ch (Some (fail_result ch Cancelled))
      else if p_err s \<noteq> None then WRel ch None
      else if \<not> pipe_ok env then WRel ch (Some (fail_result ch PipeFailed))
      else if \<not> start_ok env then WRel ch (Some (fail_result ch StartFailed))
      else WEnc ch 0)"

text \<open>One iteration of the frame loop of \<open>encodeChunkStreaming\<close>, or its epilogue.\<close>

definition worker_enc :: "pool_cfg \<Rightarrow> pool \<Rightarrow> chunk \<Rightarrow> nat \<Rightarrow> wstate" where
  "worker_enc cfg s ch i =
     (let env = pc_env cfg ch in
      if i < frame_count ch then
        (case frame_iter env ch (p_cancel s) i of
           Stop e \<Rightarrow> WRel ch (Some (fail_result ch e))
         | Break \<Rightarrow> WRel ch (Some (finish_encode env ch True))
         | Continue \<Rightarrow> WEnc ch (Suc i))
      else WRel ch (Some (finish_encode env ch False)))"

definition worker_step :: "pool_cfg \<Rightarrow> pool \<Rightarrow> nat \<Rightarrow> pool option" where
  "worker_step cfg s w =
     (if length (p_workers s) \<le> w then None else
      case p_workers s ! w of
        WInit \<Rightarrow>
          if pc_src_ok cfg w then Some (set_worker s w WIdle)
          else Some (set_worker (s\<lparr>p_err := latch (p_err s) SourceFailed\<rparr>) w WDrain)
      | WDrain \<Rightarrow> worker_recv s w (\<lambda>_. WDrainRel) WExit
      | WDrainRel \<Rightarrow> Some (set_worker (s\<lparr>p_sem := Suc (p_sem s)\<rparr>) w WDrain)
      | WIdle \<Rightarrow> worker_recv s w WGot WExit
      | WGot ch \<Rightarrow> Some (set_worker s w (worker_got cfg s ch))
      | WEnc ch i \<Rightarrow> Some (set_worker s w (worker_enc cfg s ch i))
      | WRel ch ro \<Rightarrow>
          Some (set_worker (s\<lparr>p_sem := Suc (p_sem s)\<rparr>) w (case ro of None \<Rightarrow> WIdle | Some r \<Rightarrow> WSend r))
      | WSend r \<Rightarrow>
          if length (p_results s) < pc_res_cap cfg
          then Some (set_worker (s\<lparr>p_results := p_results s @ [r]\<rparr>) w WIdle) else None
      | WExit \<Rightarrow> None)"

text \<open>The collector's loop body: latch a failed result, or count a successful one,
  append it to the resume log and report the new progress.\<close>

definition add_result :: "progress \<Rightarrow> encode_result \<Rightarrow> progress" where
  "add_result pr r =
     pr\<lparr>pr_chunks_complete := pr_chunks_complete pr + 1,
        pr_frames_complete := pr_frames_complete pr + er_frames r,
        pr_bytes_complete := pr_bytes_complete pr + er_size r\<rparr>"

definition comp_of :: "encode_result \<Rightarrow> chunk_comp" where
  "comp_of r = \<lparr>cc_idx = er_idx r, cc_frames = er_frames r, cc_size = er_size r\<rparr>"

definition collect_step :: "pool \<Rightarrow> pool option" where
  "collect_step s =
     (case p_results s of
        [] \<Rightarrow> None
      | r # rest \<Rightarrow>
          (case er_error r of
             Some e \<Rightarrow> Some (s\<lparr>p_results := rest, p_err := latch (p_err s) e\<rparr>)
           | None \<Rightarrow>
               (let pr = add_result (p_progress s) r in
                Some (s\<lparr>p_results := rest, p_progress := pr, p_log := p_log s @ [comp_of r],
                        p_snaps := p_snaps s @ [pr]\<rparr>))))"

definition pool_step :: "pool_cfg \<Rightarrow> pool \<Rightarrow> event \<Rightarrow> pool option" where
  "pool_step cfg s e =
     (case e of
        ECancel \<Rightarrow> if p_cancel s then None else Some (s\<lparr>p_cancel := True\<rparr>)
      | EWorker w \<Rightarrow> worker_step cfg s w
      | ECollect \<Rightarrow> collect_step s
      | _ \<Rightarrow> disp_step cfg s e)"

fun pool_run :: "pool_cfg \<Rightarrow> pool \<Rightarrow> event list \<Rightarrow> pool option" where
  "pool_run cfg s [] = Some s"
| "pool_run cfg s (e # es) = (case pool_step cfg s e of None \<Rightarrow> None | Some s' \<Rightarrow> pool_run cfg s' es)"

inductive pool_reach :: "pool_cfg \<Rightarrow> pool \<Rightarrow> pool \<Rightarrow> bool" for cfg s0 where
  reach_init: "pool_reach cfg s0 s0"
| reach_step: "pool_reach cfg s0 s \<Longrightarrow> pool_step cfg s e = Some s' \<Longrightarrow> pool_reach cfg s0 s'"

text \<open>\<open>workerWg.Wait()\<close> has returned, \<open>resultChan\<close> is closed and the collector has
  drained it: \<open>EncodeAll\<close> returns \<open>(actualWorkers, getError())\<close>.\<close>

definition pool_final :: "pool \<Rightarrow> bool" where
  "pool_final s \<longleftrightarrow> list_all (\<lambda>ws. ws = WExit) (p_workers s) \<and> p_results s = []"

subsection \<open>Set-up\<close>

text \<open>Lines 59--120 of \<open>EncodeAll\<close>: the chunks not in the resume log's done set,
  the initial progress, and the pool with all goroutines at their start.\<close>

definition remaining_chunks :: "chunk list \<Rightarrow> resume_inf \<Rightarrow> chunk list" where
  "remaining_chunks chunks resume = filter (\<lambda>ch. \<not> map_bool (done_set resume) (c_idx ch)) chunks"

definition init_progress :: "chunk list \<Rightarrow> resume_inf \<Rightarrow> progress" where
  "init_progress chunks resume =
     \<lparr>pr_chunks_total = int (length chunks),
      pr_chunks_complete = int (length chunks) - int (length (remaining_chunks chunks resume)),
      pr_frames_total = sum_list (map chunk_frames chunks),
      pr_frames_complete = total_encoded_frames resume,
      pr_bytes_complete = total_encoded_size resume\<rparr>"

definition init_pool :: "chunk list \<Rightarrow> resume_inf \<Rightarrow> nat \<Rightarrow> nat \<Rightarrow> pool" where
  "init_pool chunks resume workers permits =
     \<lparr>p_pending = remaining_chunks chunks resume, p_disp = DTop, p_sem = permits, p_chan = [],
      p_workers = replicate workers WInit, p_results = [], p_progress = init_progress chunks resume,
      p_err = None, p_log = [], p_snaps = [], p_cancel = False\<rparr>"

text \<open>The outcome of the set-up: \<open>GetResume\<close> failed, nothing left to encode
  (\<open>return cfg.Workers, nil\<close>), or the pool started with \<open>actualWorkers\<close> workers and
  \<open>permits\<close> permits.  \<open>available\<close> is the host's available memory.\<close>

datatype setup_result = SetupFailed chunk_error | NothingToDo int | Started int nat pool

definition encode_all_setup ::
  "chunk list \<Rightarrow> file_state \<Rightarrow> int \<Rightarrow> int \<Rightarrow> u32 \<Rightarrow> u32 \<Rightarrow> u64 \<Rightarrow> setup_result" where
  "encode_all_setup chunks done_file workers buffer width height available =
     (case get_resume done_file of
        Inl err \<Rightarrow> SetupFailed err
      | Inr resume \<Rightarrow>
          if remaining_chunks chunks resume = [] then NothingToDo workers
          else
            (let actual = fst (cap_workers workers width height available);
                 permits = nat (calculate_permits actual buffer)
             in Started actual permits (init_pool chunks resume (nat actual) permits)))"

definition setup_cfg :: "(chunk \<Rightarrow> enc_env) \<Rightarrow> (nat \<Rightarrow> bool) \<Rightarrow> nat \<Rightarrow> pool \<Rightarrow> pool_cfg" where
  "setup_cfg env src_ok permits s0 =
     \<lparr>pc_env = env, pc_src_ok = src_ok, pc_chan_cap = permits, pc_res_cap = length (p_pending s0)\<rparr>"

subsection \<open>An example\<close>

text \<open>Two chunks of two frames, no resume log, one worker and one permit (\<open>Workers = 1\<close>,
  \<open>ChunkBuffer = 0\<close>), every external call succeeding.  \<open>chunk_events\<close> takes one chunk
  from the dispatcher through the worker's two frames to the collector.\<close>

definition ex_chunks :: "chunk list" where
  "ex_chunks = [\<lparr>c_idx = 0, c_start = 0, c_end = 2\<rparr>, \<lparr>c_idx = 1, c_start = 2, c_end = 4\<rparr>]"

definition ex_pool :: pool where
  "ex_pool = init_pool ex_chunks \<lparr>chunks_done = []\<rparr> 1 1"

definition ex_cfg :: pool_cfg where
  "ex_cfg = setup_cfg (\<lambda>_. env_ok) (\<lambda>_. True) 1 ex_pool"

definition chunk_events :: "event list" where
  "chunk_events = [EDisp, EAcquire, ESend, EWorker 0, EWorker 0, EWorker 0, EWorker 0, EWorker 0,
                   EWorker 0, EWorker 0, ECollect]"

definition cancel_events :: "event list" where
  "cancel_events = EWorker 0 # chunk_events @ [ECancel, EDisp, EWorker 0]"


definition ok_events :: "event list" where
  "ok_events = EWorker 0 # chunk_events @ chunk_events @ [EDisp, EWorker 0]"

text \<open>The states the two event sequences end in.\<close>

definition ex_done :: pool where
  "ex_done = \<lparr>p_pending = [], p_disp = DDone, p_sem = 1, p_chan = [], p_workers = [WExit], p_results = [],
     p_progress = \<lparr>pr_chunks_total = 2, pr_chunks_complete = 2, pr_frames_total = 4, pr_frames_complete = 4,
                   pr_bytes_complete = 10000\<rparr>,
     p_err = None, p_log = [\<lparr>cc_idx = 0, cc_frames = 2, cc_size = 5000\<rparr>, \<lparr>cc_idx = 1, cc_frames = 2, cc_size = 5000\<rparr>],
     p_snaps = [\<lparr>pr_chunks_total = 2, pr_chunks_complete = 1, pr_frames_total = 4, pr_frames_complete = 2,
                  pr_bytes_complete = 5000\<rparr>,
                \<lparr>pr_chunks_total = 2, pr_chunks_complete = 2, pr_frames_total = 4, pr_frames_complete = 4,
                  pr_bytes_complete = 10000\<rparr>],
     p_cancel = False\<rparr>"

definition ex_cancelled :: pool where
  "ex_cancelled = \<lparr>p_pending = [], p_disp = DDone, p_sem = 1, p_chan = [], p_workers = [WExit], p_results = [],
     p_progress = \<lparr>pr_chunks_total = 2, pr_chunks_complete = 1, pr_frames_total = 4, pr_frames_complete = 2,
                   pr_bytes_complete = 5000\<rparr>,
     p_err = None, p_log = [\<lparr>cc_idx = 0, cc_frames = 2, cc_size = 5000\<rparr>],
     p_snaps = [\<lparr>pr_chunks_total = 2, pr_chunks_complete = 1, pr_frames_total = 4, pr_frames_complete = 2,
                  pr_bytes_complete = 5000\<rparr>],
     p_cancel = True\<rparr>"

subsection \<open>Lemmas: the shape of each step\<close>

text \<open>Each kind of event, with its guard and its effect on the state; the invariant proofs
  are case analyses over these rules.\<close>

lemma disp_step_cases:
  assumes "disp_step cfg s e = Some s'"
  obtains (top) "p_disp s = DTop" "s' = disp_top s"
  | (acquire) ch where "p_disp s = DAcquire ch" "0 < p_sem s"
      "s' = s\<lparr>p_sem := p_sem s - 1, p_disp := DHeld ch\<rparr>"
  | (abort_acq) ch where "p_disp s = DAcquire ch" "p_cancel s" "s' = s\<lparr>p_disp := DDone\<rparr>"
  | (send) ch where "p_disp s = DHeld ch" "length (p_chan s) < pc_chan_cap cfg"
      "s' = s\<lparr>p_chan := p_chan s @ [ch], p_disp := DTop\<rparr>"
  | (abort_held) ch where "p_disp s = DHeld ch" "p_cancel s"
      "s' = s\<lparr>p_sem := Suc (p_sem s), p_disp := DDone\<rparr>"
  using assms unfolding disp_step_def
  by (auto split: disp_state.splits event.splits if_splits)

lemma worker_step_cases:
  assumes "worker_step cfg s w = Some s'"
  obtains (init_ok) "w < length (p_workers s)" "p_workers s ! w = WInit" "pc_src_ok cfg w"
      "s' = set_worker s w WIdle"
  | (init_fail) "w < length (p_workers s)" "p_workers s ! w = WInit" "\<not> pc_src_ok cfg w"
      "s' = set_worker (s\<lparr>p_err := latch (p_err s) SourceFailed\<rparr>) w WDrain"
  | (recv_drain) ch rest where "w < length (p_workers s)" "p_workers s ! w = WDrain" "p_chan s = ch # rest"
      "s' = set_worker (s\<lparr>p_chan := rest\<rparr>) w WDrainRel"
  | (recv) ch rest where "w < length (p_workers s)" "p_workers s ! w = WIdle" "p_chan s = ch # rest"
      "s' = set_worker (s\<lparr>p_chan := rest\<rparr>) w (WGot ch)"
  | (close) "w < length (p_workers s)" "p_workers s ! w = WDrain \<or> p_workers s ! w = WIdle"
      "p_chan s = []" "p_disp s = DDone" "s' = set_worker s w WExit"
  | (drain_rel) "w < length (p_workers s)" "p_workers s ! w = WDrainRel"
      "s' = set_worker (s\<lparr>p_sem := Suc (p_sem s)\<rparr>) w WDrain"
  | (got) ch where "w < length (p_workers s)" "p_workers s ! w = WGot ch"
      "s' = set_worker s w (worker_got cfg s ch)"
  | (enc) ch i where "w < length (p_workers s)" "p_workers s ! w = WEnc ch i"
      "s' = set_worker s w (worker_enc cfg s ch i)"
  | (rel) ch ro where "w < length (p_workers s)" "p_workers s ! w = WRel ch ro"
      "s' = set_worker (s\<lparr>p_sem := Suc (p_sem s)\<rparr>) w (case ro of None \<Rightarrow> WIdle | Some r \<Rightarrow> WSend r)"
  | (send_res) r where "w < length (p_workers s)" "p_workers s ! w = WSend r"
      "length (p_results s) < pc_res_cap cfg"
      "s' = set_worker (s\<lparr>p_results := p_results s @ [r]\<rparr>) w WIdle"
proof -
  have w: "w < length (p_workers s)"
    using assms by (simp add: worker_step_def split: if_splits)
  show thesis
  proof (cases "p_workers s ! w")
    case WInit with assms w that(1,2) show ?thesis by (simp add: worker_step_def split: if_splits)
  next
    case WDrain with assms w that(3,5) show ?thesis
      by (auto simp: worker_step_def worker_recv_def split: list.splits if_splits)
  next
    case WDrainRel with assms w that(6) show ?thesis by (simp add: worker_step_def)
  next
    case WIdle with assms w that(4,5) show ?thesis
      by (auto simp: worker_step_def worker_recv_def split: list.splits if_splits)
  next
    case (WGot ch) with assms w that(7) show ?thesis by (simp add: worker_step_def)
  next
    case (WEnc ch i) with assms w that(8) show ?thesis by (simp add: worker_step_def)
  next
    case (WRel ch ro) with assms w that(9) show ?thesis by (simp add: worker_step_def)
  next
    case (WSend r) with assms w that(10) show ?thesis by (simp add: worker_step_def split: if_splits)
  next
    case WExit with assms w show ?thesis by (simp add: worker_step_def)
  qed
qed

lemma collect_step_cases:
  assumes "collect_step s = Some s'"
  obtains (failed) r rest e where "p_results s = r # rest" "er_error r = Some e"
      "s' = s\<lparr>p_results := rest, p_err := latch (p_err s) e\<rparr>"
  | (ok) r rest where "p_results s = r # rest" "er_error r = None"
      "s' = s\<lparr>p_results := rest, p_progress := add_result (p_progress s) r,
              p_log := p_log s @ [comp_of r], p_snaps := p_snaps s @ [add_result (p_progress s) r]\<rparr>"
  using assms unfolding collect_step_def
  by (auto simp: Let_def split: list.splits option.splits)

lemma pool_step_cases:
  assumes "pool_step cfg s e = Some s'"
  obtains (cancel) "\<not> p_cancel s" "s' = s\<lparr>p_cancel := True\<rparr>"
  | (disp) "disp_step cfg s e = Some s'"
  | (worker) w where "worker_step cfg s w = Some s'"
  | (collect) "collect_step s = Some s'"
proof (cases e)
  case ECancel with assms that(1) show ?thesis by (simp add: pool_step_def split: if_splits)
next
  case (EWorker w) with assms that(3) show ?thesis by (simp add: pool_step_def)
next
  case ECollect with assms that(4) show ?thesis by (simp add: pool_step_def)
qed (use assms that(2) in \<open>simp_all add: pool_step_def\<close>)

lemma set_worker_simps [simp]:
  "p_workers (set_worker s w ws) = (p_workers s)[w := ws]"
  "p_pending (set_worker s w ws) = p_pending s" "p_disp (set_worker s w ws) = p_disp s"
  "p_sem (set_worker s w ws) = p_sem s" "p_chan (set_worker s w ws) = p_chan s"
  "p_results (set_worker s w ws) = p_results s" "p_progress (set_worker s w ws) = p_progress s"
  "p_err (set_worker s w ws) = p_err s" "p_log (set_worker s w ws) = p_log s"
  "p_snaps (set_worker s w ws) = p_snaps s" "p_cancel (set_worker s w ws) = p_cancel s"
  by (simp_all add: set_worker_def)

lemma disp_top_shape:
  "p_sem (disp_top s) = p_sem s \<and> p_chan (disp_top s) = p_chan s \<and> p_workers (disp_top s) = p_workers s
   \<and> p_results (disp_top s) = p_results s \<and> p_log (disp_top s) = p_log s \<and> p_err (disp_top s) = p_err s
   \<and> p_progress (disp_top s) = p_progress s \<and> p_snaps (disp_top s) = p_snaps s
   \<and> p_cancel (disp_top s) = p_cancel s"
  by (simp add: disp_top_def split: list.splits)

lemma init_pool_simps:
  "p_pending (init_pool chunks resume n permits) = remaining_chunks chunks resume"
  "p_disp (init_pool chunks resume n permits) = DTop"
  "p_sem (init_pool chunks resume n permits) = permits"
  "p_chan (init_pool chunks resume n permits) = []"
  "p_workers (init_pool chunks resume n permits) = replicate n WInit"
  "p_results (init_pool chunks resume n permits) = []"
  "p_progress (init_pool chunks resume n permits) = init_progress chunks resume"
  "p_err (init_pool chunks resume n permits) = None"
  "p_log (init_pool chunks resume n permits) = []"
  "p_snaps (init_pool chunks resume n permits) = []"
  "p_cancel (init_pool chunks resume n permits) = False"
  by (simp_all add: init_pool_def)

lemma setup_cfg_simps:
  "pc_env (setup_cfg env src_ok permits s0) = env" "pc_src_ok (setup_cfg env src_ok permits s0) = src_ok"
  "pc_chan_cap (setup_cfg env src_ok permits s0) = permits"
  "pc_res_cap (setup_cfg env src_ok permits s0) = length (p_pending s0)"
  by (simp_all add: setup_cfg_def)

lemma pool_reach_induct_inv:
  assumes "pool_reach cfg s0 s" "P s0"
    "\<And>s s' e. pool_reach cfg s0 s \<Longrightarrow> P s \<Longrightarrow> pool_step cfg s e = Some s' \<Longrightarrow> P s'"
  shows "P s"
  using assms(1) by induction (use assms(2,3) in blast)+

lemma cancel_step:
  assumes "pool_step cfg s e = Some s'" "p_cancel s"
  shows "p_cancel s'"
  using assms
proof (cases rule: pool_step_cases)
  case disp then show ?thesis
    by (cases rule: disp_step_cases) (use assms(2) disp_top_shape [of s] in simp_all)
next
  case (worker w) then show ?thesis by (cases rule: worker_step_cases) (use assms(2) in simp_all)
next
  case collect then show ?thesis by (cases rule: collect_step_cases) (use assms(2) in simp_all)
qed (use assms in simp)

lemma length_workers_step:
  assumes "pool_step cfg s e = Some s'"
  shows "length (p_workers s') = length (p_workers s)"
  using assms
proof (cases rule: pool_step_cases)
  case disp then show ?thesis by (cases rule: disp_step_cases) (simp_all add: disp_top_shape)
next
  case (worker w) then show ?thesis by (cases rule: worker_step_cases) simp_all
next
  case collect then show ?thesis by (cases rule: collect_step_cases) simp_all
qed simp

lemma pool_run_reach: "pool_run cfg s es = Some s' \<Longrightarrow> pool_reach cfg s0 s \<Longrightarrow> pool_reach cfg s0 s'"
proof (induction es arbitrary: s)
  case Nil then show ?case by simp
next
  case (Cons e es) then show ?case by (auto intro: reach_step split: option.splits)
qed

subsection \<open>Lemmas: evaluation\<close>

lemmas pool_eval = pool_step_def disp_step_def worker_step_def worker_recv_def worker_got_def worker_enc_def
  collect_step_def disp_top_def set_worker_def latch_def add_result_def comp_of_def frame_iter_def
  finish_encode_def frame_count_def chunk_frames_def env_ok_def Let_def

lemma ex_pool_eq: "ex_pool = \<lparr>p_pending = ex_chunks, p_disp = DTop, p_sem = 1, p_chan = [], p_workers = [WInit],
    p_results = [], p_progress = \<lparr>pr_chunks_total = 2, pr_chunks_complete = 0, pr_frames_total = 4,
      pr_frames_complete = 0, pr_bytes_complete = 0\<rparr>, p_err = None, p_log = [], p_snaps = [], p_cancel = False\<rparr>"
  by (simp add: ex_pool_def init_pool_def remaining_chunks_def ex_chunks_def done_set_def map_bool_def
      init_progress_def total_encoded_frames_def total_encoded_size_def chunk_frames_def)

lemma ex_ok_run: "pool_run ex_cfg ex_pool ok_events = Some ex_done"
  by (simp add: ex_pool_eq ex_cfg_def setup_cfg_def ok_events_def chunk_events_def pool_eval ex_chunks_def ex_done_def)

lemma ex_cancel_run: "pool_run ex_cfg ex_pool cancel_events = Some ex_cancelled"
  by (simp add: ex_pool_eq ex_cfg_def setup_cfg_def cancel_events_def chunk_events_def pool_eval ex_chunks_def
      ex_cancelled_def)

end
