(* ===== verification/Pool_Invariants.thy ===== *)
theory Pool_Invariants
  imports Pool_Model "HOL-Library.Multiset"
begin

text \<open>
  Invariants of the worker pool of \<open>Pool_Model\<close>, each proved preserved by every event
  and so true in every state reachable from the start of \<open>EncodeAll\<close>:
  \<^item> \<open>sem_inv\<close>: free permits plus the permits held (by the dispatcher between acquire
    and send, by the chunks buffered in \<open>chunkChan\<close>, and by the workers between
    receive and release) is the number of permits;
  \<^item> \<open>tokens\<close>: the multiset of chunk indices found anywhere in the pipeline (not yet
    dispatched, held by the dispatcher, buffered, held by a worker, as a result, in the
    log) only shrinks: a chunk is dropped or moves on, never duplicated;
  \<^item> \<open>mem_inv\<close>: every chunk in the pipeline is one of the remaining chunks, and every
    successful result and log record names one and carries its frame count;
  \<^item> \<open>prog_inv\<close>: the progress record and every snapshot reported are the initial
    progress plus the records logged so far;
  \<^item> \<open>exit_inv\<close>: a worker returns only after the dispatcher closed the channel and
    the channel is empty;
  \<^item> \<open>ok_inv\<close>: when every external call succeeds and the context is not cancelled,
    no error is latched and no chunk is dropped.
  The theorems read them back as statements about \<open>EncodeAll\<close>.
\<close>

fun w_holds :: "wstate \<Rightarrow> nat" where
  "w_holds WDrainRel = 1"
| "w_holds (WGot ch) = 1"
| "w_holds (WEnc ch i) = 1"
| "w_holds (WRel ch ro) = 1"
| "w_holds _ = 0"

definition d_holds :: "disp_state \<Rightarrow> nat" where
  "d_holds d = (case d of DHeld ch \<Rightarrow> 1 | _ \<Rightarrow> 0)"

definition permits_out :: "pool \<Rightarrow> nat" where
  "permits_out s = d_holds (p_disp s) + length (p_chan s) + sum_list (map w_holds (p_workers s))"

definition sem_inv :: "pool_cfg \<Rightarrow> pool \<Rightarrow> bool" where
  "sem_inv cfg s \<longleftrightarrow> p_sem s + permits_out s = pc_chan_cap cfg"

fun w_tok :: "wstate \<Rightarrow> int multiset" where
  "w_tok (WGot ch) = {#c_idx ch#}"
| "w_tok (WEnc ch i) = {#c_idx ch#}"
| "w_tok (WRel ch ro) = {#c_idx ch#}"
| "w_tok (WSend r) = {#er_idx r#}"
| "w_tok _ = {#}"

definition d_tok :: "disp_state \<Rightarrow> int multiset" where
  "d_tok d = (case d of DAcquire ch \<Rightarrow> {#c_idx ch#} | DHeld ch \<Rightarrow> {#c_idx ch#} | _ \<Rightarrow> {#})"

definition tokens :: "pool \<Rightarrow> int multiset" where
  "tokens s = mset (map c_idx (p_pending s)) + d_tok (p_disp s) + mset (map c_idx (p_chan s))
             + sum_list (map w_tok (p_workers s)) + mset (map er_idx (p_results s)) + mset (map cc_idx (p_log s))"

fun rel_ok :: "wstate \<Rightarrow> bool" where
  "rel_ok (WRel ch (Some r)) \<longleftrightarrow> er_idx r = c_idx ch \<and> (er_error r = None \<longrightarrow> er_frames r = chunk_frames ch)"
| "rel_ok _ \<longleftrightarrow> True"

definition res_good :: "chunk set \<Rightarrow> encode_result \<Rightarrow> bool" where
  "res_good R r \<longleftrightarrow> (er_error r = None \<longrightarrow> (\<exists>ch\<in>R. er_idx r = c_idx ch \<and> er_frames r = chunk_frames ch))"

definition comp_good :: "chunk set \<Rightarrow> chunk_comp \<Rightarrow> bool" where
  "comp_good R c \<longleftrightarrow> (\<exists>ch\<in>R. cc_idx c = c_idx ch \<and> cc_frames c = chunk_frames ch)"

fun w_in :: "chunk set \<Rightarrow> wstate \<Rightarrow> bool" where
  "w_in R (WGot ch) \<longleftrightarrow> ch \<in> R"
| "w_in R (WEnc ch i) \<longleftrightarrow> ch \<in> R"
| "w_in R (WRel ch ro) \<longleftrightarrow> ch \<in> R"
| "w_in R (WSend r) \<longleftrightarrow> res_good R r"
| "w_in R _ \<longleftrightarrow> True"

definition d_in :: "chunk set \<Rightarrow> disp_state \<Rightarrow> bool" where
  "d_in R d \<longleftrightarrow> (case d of DAcquire ch \<Rightarrow> ch \<in> R | DHeld ch \<Rightarrow> ch \<in> R | _ \<Rightarrow> True)"

definition mem_inv :: "chunk set \<Rightarrow> pool \<Rightarrow> bool" where
  "mem_inv R s \<longleftrightarrow> set (p_pending s) \<subseteq> R \<and> d_in R (p_disp s) \<and> set (p_chan s) \<subseteq> R
     \<and> (\<forall>ws\<in>set (p_workers s). w_in R ws \<and> rel_ok ws)
     \<and> (\<forall>r\<in>set (p_results s). res_good R r) \<and> (\<forall>c\<in>set (p_log s). comp_good R c)"

definition add_comp :: "progress \<Rightarrow> chunk_comp \<Rightarrow> progress" where
  "add_comp pr c =
     pr\<lparr>pr_chunks_complete := pr_chunks_complete pr + 1,
        pr_frames_complete := pr_frames_complete pr + cc_frames c,
        pr_bytes_complete := pr_bytes_complete pr + cc_size c\<rparr>"

definition progress_after :: "progress \<Rightarrow> chunk_comp list \<Rightarrow> progress" where
  "progress_after pr0 cs = fold (\<lambda>c pr. add_comp pr c) cs pr0"

definition prog_inv :: "progress \<Rightarrow> pool \<Rightarrow> bool" where
  "prog_inv pr0 s \<longleftrightarrow> p_progress s = progress_after pr0 (p_log s)
     \<and> p_snaps s = map (\<lambda>k. progress_after pr0 (take (Suc k) (p_log s))) [0..<length (p_log s)]"

definition exit_inv :: "pool \<Rightarrow> bool" where
  "exit_inv s \<longleftrightarrow> (WExit \<in> set (p_workers s) \<longrightarrow> p_disp s = DDone \<and> p_chan s = [])"

definition pool_inv :: "pool_cfg \<Rightarrow> pool \<Rightarrow> pool \<Rightarrow> bool" where
  "pool_inv cfg s0 s \<longleftrightarrow> sem_inv cfg s \<and> tokens s \<subseteq># tokens s0 \<and> (\<forall>ws\<in>set (p_workers s). rel_ok ws) \<and> exit_inv s"

fun w_ok :: "wstate \<Rightarrow> bool" where
  "w_ok WDrain \<longleftrightarrow> False"
| "w_ok WDrainRel \<longleftrightarrow> False"
| "w_ok (WRel ch None) \<longleftrightarrow> False"
| "w_ok (WRel ch (Some r)) \<longleftrightarrow> er_error r = None"
| "w_ok (WSend r) \<longleftrightarrow> er_error r = None"
| "w_ok _ \<longleftrightarrow> True"

definition ok_inv :: "pool \<Rightarrow> pool \<Rightarrow> bool" where
  "ok_inv s0 s \<longleftrightarrow> p_err s = None \<and> (\<forall>ws\<in>set (p_workers s). w_ok ws)
     \<and> (\<forall>r\<in>set (p_results s). er_error r = None) \<and> (p_disp s = DDone \<longrightarrow> p_pending s = [])
     \<and> tokens s = tokens s0"

definition all_ok :: "pool_cfg \<Rightarrow> chunk set \<Rightarrow> nat \<Rightarrow> bool" where
  "all_ok cfg R n \<longleftrightarrow> (\<forall>w<n. pc_src_ok cfg w) \<and> (\<forall>ch\<in>R. stream_ok (pc_env cfg ch) ch (\<lambda>_. False))"

definition reach_invs :: "pool_cfg \<Rightarrow> pool \<Rightarrow> chunk set \<Rightarrow> progress \<Rightarrow> nat \<Rightarrow> pool \<Rightarrow> bool" where
  "reach_invs cfg s0 R pr0 n s \<longleftrightarrow> pool_inv cfg s0 s \<and> mem_inv R s \<and> prog_inv pr0 s
     \<and> length (p_workers s) = n \<and> (all_ok cfg R n \<longrightarrow> \<not> p_cancel s \<longrightarrow> ok_inv s0 s)"


subsection \<open>Lemmas: preservation by each step\<close>

lemma permits_out_set_worker:
  "w < length (p_workers s) \<Longrightarrow>
   permits_out (set_worker s w ws) + w_holds (p_workers s ! w) = permits_out s + w_holds ws"
  using sum_map_update [of w "p_workers s" w_holds ws] by (simp add: permits_out_def)

lemma w_holds_got [simp]: "w_holds (worker_got cfg s ch) = 1"
  by (simp add: worker_got_def Let_def)

lemma w_holds_enc [simp]: "w_holds (worker_enc cfg s ch i) = 1"
  by (simp add: worker_enc_def Let_def split: iter_outcome.splits)

lemma d_holds_disp_top: "d_holds (p_disp (disp_top s)) = 0"
  by (simp add: disp_top_def d_holds_def split: list.splits)

lemma sem_inv_step:
  assumes step: "pool_step cfg s e = Some s'" and inv: "sem_inv cfg s"
  shows "sem_inv cfg s'"
  using step
proof (cases rule: pool_step_cases)
  case cancel with inv show ?thesis by (simp add: sem_inv_def permits_out_def)
next
  case disp then show ?thesis
  proof (cases rule: disp_step_cases)
    case top with inv disp_top_shape [of s] d_holds_disp_top [of s] show ?thesis
      by (simp add: sem_inv_def permits_out_def d_holds_def)
  qed (use inv in \<open>auto simp: sem_inv_def permits_out_def d_holds_def\<close>)
next
  case (worker w) then show ?thesis
  proof (cases rule: worker_step_cases)
    case init_ok with inv permits_out_set_worker [of w s WIdle] show ?thesis by (simp add: sem_inv_def)
  next
    case init_fail with inv permits_out_set_worker [of w s WDrain] show ?thesis
      by (simp add: sem_inv_def permits_out_def)
  next
    case (recv_drain ch rest)
    with inv permits_out_set_worker [of w "s\<lparr>p_chan := rest\<rparr>" WDrainRel] show ?thesis
      by (simp add: sem_inv_def permits_out_def)
  next
    case (recv ch rest)
    with inv permits_out_set_worker [of w "s\<lparr>p_chan := rest\<rparr>" "WGot ch"] show ?thesis
      by (simp add: sem_inv_def permits_out_def)
  next
    case close with inv permits_out_set_worker [of w s WExit] show ?thesis by (auto simp: sem_inv_def)
  next
    case drain_rel
    with inv permits_out_set_worker [of w "s\<lparr>p_sem := Suc (p_sem s)\<rparr>" WDrain] show ?thesis
      by (simp add: sem_inv_def permits_out_def)
  next
    case (got ch) with inv permits_out_set_worker [of w s "worker_got cfg s ch"] show ?thesis
      by (simp add: sem_inv_def)
  next
    case (enc ch i) with inv permits_out_set_worker [of w s "worker_enc cfg s ch i"] show ?thesis
      by (simp add: sem_inv_def)
  next
    case (rel ch ro)
    with inv permits_out_set_worker [of w "s\<lparr>p_sem := Suc (p_sem s)\<rparr>" "case ro of None \<Rightarrow> WIdle | Some r \<Rightarrow> WSend r"]
    show ?thesis by (simp add: sem_inv_def permits_out_def split: option.splits)
  next
    case (send_res r)
    with inv permits_out_set_worker [of w "s\<lparr>p_results := p_results s @ [r]\<rparr>" WIdle] show ?thesis
      by (simp add: sem_inv_def permits_out_def)
  qed
next
  case collect then show ?thesis
    by (cases rule: collect_step_cases) (use inv in \<open>simp_all add: sem_inv_def permits_out_def\<close>)
qed

lemma rel_ok_got [simp]: "rel_ok (worker_got cfg s ch)"
  by (simp add: worker_got_def Let_def)

lemma rel_ok_enc [simp]: "rel_ok (worker_enc cfg s ch i)"
  by (auto simp: worker_enc_def Let_def finish_encode_def split: iter_outcome.splits option.splits)

lemma w_tok_got [simp]: "w_tok (worker_got cfg s ch) = {#c_idx ch#}"
  by (simp add: worker_got_def Let_def)

lemma w_tok_enc [simp]: "w_tok (worker_enc cfg s ch i) = {#c_idx ch#}"
  by (simp add: worker_enc_def Let_def split: iter_outcome.splits)

lemma rel_ok_step:
  assumes step: "pool_step cfg s e = Some s'" and inv: "\<forall>ws\<in>set (p_workers s). rel_ok ws"
  shows "\<forall>ws\<in>set (p_workers s'). rel_ok ws"
  using step
proof (cases rule: pool_step_cases)
  case disp then show ?thesis
    by (cases rule: disp_step_cases) (use inv disp_top_shape [of s] in simp_all)
next
  case (worker w) then show ?thesis
    by (cases rule: worker_step_cases) (use inv in \<open>auto dest!: set_update_sub [THEN subsetD] split: option.splits\<close>)
next
  case collect then show ?thesis by (cases rule: collect_step_cases) (use inv in simp_all)
qed (use inv in simp)

lemma sub_add_mset: "add_mset x A = B \<Longrightarrow> A \<subseteq># B"
  by auto

lemma tokens_set_worker:
  "w < length (p_workers s) \<Longrightarrow>
   tokens (set_worker s w ws) + w_tok (p_workers s ! w) = tokens s + w_tok ws"
  using sum_map_update [of w "p_workers s" w_tok ws] by (simp add: tokens_def ac_simps)

lemma tokens_disp_top: "p_disp s = DTop \<Longrightarrow> tokens (disp_top s) \<subseteq># tokens s"
  by (auto simp: disp_top_def tokens_def d_tok_def split: list.splits)

lemma tokens_step:
  assumes step: "pool_step cfg s e = Some s'" and inv: "\<forall>ws\<in>set (p_workers s). rel_ok ws"
  shows "tokens s' \<subseteq># tokens s"
  using step
proof (cases rule: pool_step_cases)
  case cancel then show ?thesis by (simp add: tokens_def)
next
  case disp then show ?thesis
  proof (cases rule: disp_step_cases)
    case top then show ?thesis using tokens_disp_top by simp
  qed (simp_all add: tokens_def d_tok_def)
next
  case (worker w) then show ?thesis
  proof (cases rule: worker_step_cases)
    case init_ok with tokens_set_worker [of w s WIdle] show ?thesis by simp
  next
    case init_fail with tokens_set_worker [of w "s\<lparr>p_err := latch (p_err s) SourceFailed\<rparr>" WDrain] show ?thesis
      by (simp add: tokens_def)
  next
    case (recv_drain ch rest)
    with tokens_set_worker [of w "s\<lparr>p_chan := rest\<rparr>" WDrainRel] show ?thesis
      by (simp add: tokens_def)
  next
    case (recv ch rest)
    with tokens_set_worker [of w "s\<lparr>p_chan := rest\<rparr>" "WGot ch"] show ?thesis
      by (simp add: tokens_def ac_simps)
  next
    case close with tokens_set_worker [of w s WExit] show ?thesis by auto
  next
    case drain_rel
    with tokens_set_worker [of w "s\<lparr>p_sem := Suc (p_sem s)\<rparr>" WDrain] show ?thesis
      by (simp add: tokens_def)
  next
    case (got ch) with tokens_set_worker [of w s "worker_got cfg s ch"] show ?thesis by simp
  next
    case (enc ch i) with tokens_set_worker [of w s "worker_enc cfg s ch i"] show ?thesis by simp
  next
    case (rel ch ro)
    have "rel_ok (WRel ch ro)" using rel inv by (metis nth_mem)
    with rel tokens_set_worker [of w "s\<lparr>p_sem := Suc (p_sem s)\<rparr>" "case ro of None \<Rightarrow> WIdle | Some r \<Rightarrow> WSend r"]
    show ?thesis by (auto simp: tokens_def sub_add_mset split: option.splits)
  next
    case (send_res r)
    with tokens_set_worker [of w "s\<lparr>p_results := p_results s @ [r]\<rparr>" WIdle] show ?thesis
      by (simp add: tokens_def ac_simps)
  qed
next
  case collect then show ?thesis
    by (cases rule: collect_step_cases) (simp_all add: tokens_def comp_of_def ac_simps)
qed

lemma w_in_got [simp]: "ch \<in> R \<Longrightarrow> w_in R (worker_got cfg s ch)"
  by (simp add: worker_got_def Let_def)

lemma w_in_enc [simp]: "ch \<in> R \<Longrightarrow> w_in R (worker_enc cfg s ch i)"
  by (simp add: worker_enc_def Let_def split: iter_outcome.splits)

lemma mem_inv_disp_top: "mem_inv R s \<Longrightarrow> mem_inv R (disp_top s)"
  by (auto simp: disp_top_def mem_inv_def d_in_def split: list.splits)

lemma mem_inv_step:
  assumes step: "pool_step cfg s e = Some s'" and inv: "mem_inv R s"
  shows "mem_inv R s'"
  using step
proof (cases rule: pool_step_cases)
  case cancel with inv show ?thesis by (simp add: mem_inv_def)
next
  case disp then show ?thesis
  proof (cases rule: disp_step_cases)
    case top with inv show ?thesis by (simp add: mem_inv_disp_top)
  qed (use inv in \<open>auto simp: mem_inv_def d_in_def\<close>)
next
  case (worker w)
  have wi: "\<And>ws. ws \<in> set (p_workers s) \<Longrightarrow> w_in R ws \<and> rel_ok ws" using inv by (simp add: mem_inv_def)
  from worker show ?thesis
  proof (cases rule: worker_step_cases)
    case (rel ch ro)
    then have "w_in R (WRel ch ro) \<and> rel_ok (WRel ch ro)" using wi by (metis nth_mem)
    with rel inv show ?thesis
      by (auto simp: mem_inv_def res_good_def dest!: set_update_sub [THEN subsetD] split: option.splits)
  next
    case (got ch)
    then have "ch \<in> R" using wi by (metis nth_mem w_in.simps(1))
    with got inv show ?thesis by (auto simp: mem_inv_def dest!: set_update_sub [THEN subsetD])
  next
    case (enc ch i)
    then have "ch \<in> R" using wi by (metis nth_mem w_in.simps(2))
    with enc inv show ?thesis by (auto simp: mem_inv_def dest!: set_update_sub [THEN subsetD])
  next
    case (send_res r)
    then have "res_good R r" using wi by (metis nth_mem w_in.simps(4))
    with send_res inv show ?thesis by (auto simp: mem_inv_def dest!: set_update_sub [THEN subsetD])
  qed (use inv in \<open>auto simp: mem_inv_def dest!: set_update_sub [THEN subsetD]\<close>)
next
  case collect then show ?thesis
    by (cases rule: collect_step_cases)
      (use inv in \<open>auto simp: mem_inv_def res_good_def comp_good_def comp_of_def\<close>)
qed

lemma add_result_comp: "add_result pr r = add_comp pr (comp_of r)"
  by (simp add: add_result_def add_comp_def comp_of_def)

lemma progress_after_snoc: "progress_after pr0 (cs @ [c]) = add_comp (progress_after pr0 cs) c"
  by (simp add: progress_after_def)

lemma prog_inv_step:
  assumes step: "pool_step cfg s e = Some s'" and inv: "prog_inv pr0 s"
  shows "prog_inv pr0 s'"
  using step
proof (cases rule: pool_step_cases)
  case disp then show ?thesis
    by (cases rule: disp_step_cases) (use inv disp_top_shape [of s] in \<open>simp_all add: prog_inv_def\<close>)
next
  case (worker w) then show ?thesis
    by (cases rule: worker_step_cases) (use inv in \<open>simp_all add: prog_inv_def\<close>)
next
  case collect then show ?thesis
  proof (cases rule: collect_step_cases)
    case (ok r rest)
    with inv show ?thesis by (simp add: prog_inv_def add_result_comp progress_after_snoc)
  qed (use inv in \<open>simp add: prog_inv_def\<close>)
qed (use inv in \<open>simp add: prog_inv_def\<close>)

lemma latch_keeps: "cur = Some x \<Longrightarrow> latch cur e = Some x"
  by (simp add: latch_def)

lemma err_step:
  assumes step: "pool_step cfg s e = Some s'" and err: "p_err s = Some x"
  shows "p_err s' = Some x"
  using step
proof (cases rule: pool_step_cases)
  case disp then show ?thesis
    by (cases rule: disp_step_cases) (use err disp_top_shape [of s] in simp_all)
next
  case (worker w) then show ?thesis
    by (cases rule: worker_step_cases) (use err latch_keeps in simp_all)
next
  case collect then show ?thesis
    by (cases rule: collect_step_cases) (use err latch_keeps in simp_all)
qed (use err in simp)

lemma got_not_exit [simp]: "WExit \<noteq> worker_got cfg s ch"
  by (simp add: worker_got_def Let_def)

lemma enc_not_exit [simp]: "WExit \<noteq> worker_enc cfg s ch i"
  by (simp add: worker_enc_def Let_def split: iter_outcome.splits)

lemma exit_inv_step:
  assumes step: "pool_step cfg s e = Some s'" and inv: "exit_inv s"
  shows "exit_inv s'"
  using step
proof (cases rule: pool_step_cases)
  case disp then show ?thesis
    by (cases rule: disp_step_cases) (use inv in \<open>auto simp: exit_inv_def disp_top_def split: list.splits\<close>)
next
  case (worker w) then show ?thesis
    by (cases rule: worker_step_cases)
       (use inv in \<open>auto simp: exit_inv_def dest!: set_update_sub [THEN subsetD] split: option.splits\<close>)
next
  case collect then show ?thesis
    by (cases rule: collect_step_cases) (use inv in \<open>simp_all add: exit_inv_def\<close>)
qed (use inv in \<open>simp add: exit_inv_def\<close>)

lemma pool_inv_step:
  "pool_inv cfg s0 s \<Longrightarrow> pool_step cfg s e = Some s' \<Longrightarrow> pool_inv cfg s0 s'"
  unfolding pool_inv_def
  using sem_inv_step tokens_step rel_ok_step exit_inv_step subset_mset.order_trans by metis

lemma pool_inv_reach: "pool_reach cfg s0 s \<Longrightarrow> pool_inv cfg s0 s0 \<Longrightarrow> pool_inv cfg s0 s"
  by (erule pool_reach_induct_inv) (auto intro: pool_inv_step)

lemma stream_ok_frame:
  "stream_ok env ch (\<lambda>_. False) \<Longrightarrow> i < frame_count ch \<Longrightarrow> frame_iter env ch False i = Continue"
  by (auto simp: stream_ok_def frame_iter_def list_all_iff)

lemma worker_got_ok:
  "\<not> p_cancel s \<Longrightarrow> p_err s = None \<Longrightarrow> stream_ok (pc_env cfg ch) ch (\<lambda>_. False) \<Longrightarrow> worker_got cfg s ch = WEnc ch 0"
  by (simp add: worker_got_def stream_ok_def)

lemma worker_enc_ok:
  "\<not> p_cancel s \<Longrightarrow> stream_ok (pc_env cfg ch) ch (\<lambda>_. False) \<Longrightarrow> w_ok (worker_enc cfg s ch i)"
proof (cases "i < frame_count ch")
  case True
  moreover assume "\<not> p_cancel s" "stream_ok (pc_env cfg ch) ch (\<lambda>_. False)"
  ultimately show ?thesis by (simp add: worker_enc_def stream_ok_frame)
next
  case False
  moreover assume "stream_ok (pc_env cfg ch) ch (\<lambda>_. False)"
  ultimately show ?thesis by (auto simp: worker_enc_def finish_encode_def stream_ok_def)
qed

lemma ok_inv_step:
  assumes step: "pool_step cfg s e = Some s'" and nc: "\<not> p_cancel s'"
    and ok: "all_ok cfg R (length (p_workers s))" and mem: "mem_inv R s"
    and relok: "\<forall>ws\<in>set (p_workers s). rel_ok ws" and inv: "ok_inv s0 s"
  shows "ok_inv s0 s'"
proof -
  have nc0: "\<not> p_cancel s" using cancel_step [OF step] nc by blast
  have wok: "\<And>ws. ws \<in> set (p_workers s) \<Longrightarrow> w_ok ws" using inv by (simp add: ok_inv_def)
  have err: "p_err s = None" using inv by (simp add: ok_inv_def)
  have tok: "tokens s = tokens s0" using inv by (simp add: ok_inv_def)
  from step show ?thesis
  proof (cases rule: pool_step_cases)
    case cancel with nc show ?thesis by simp
  next
    case disp then show ?thesis
    proof (cases rule: disp_step_cases)
      case top with inv nc0 show ?thesis
        by (auto simp: ok_inv_def disp_top_def tokens_def d_tok_def split: list.splits)
    qed (use inv nc0 in \<open>auto simp: ok_inv_def tokens_def d_tok_def\<close>)
  next
    case (worker w)
    note ts = tokens_set_worker [of w]
    from worker show ?thesis
    proof (cases rule: worker_step_cases)
      case init_ok with inv ts [of s WIdle] show ?thesis
        by (auto simp: ok_inv_def dest!: set_update_sub [THEN subsetD])
    next
      case init_fail with ok show ?thesis by (simp add: all_ok_def)
    next
      case recv_drain with wok show ?thesis by (metis nth_mem w_ok.simps(1))
    next
      case (recv ch rest) with inv ts [of "s\<lparr>p_chan := rest\<rparr>" "WGot ch"] show ?thesis
        by (auto simp: ok_inv_def tokens_def ac_simps dest!: set_update_sub [THEN subsetD])
    next
      case close with inv ts [of s WExit] show ?thesis
        by (auto simp: ok_inv_def dest!: set_update_sub [THEN subsetD])
    next
      case drain_rel with wok show ?thesis by (metis nth_mem w_ok.simps(2))
    next
      case (got ch)
      then have "ch \<in> R" using mem by (auto simp: mem_inv_def dest!: nth_mem)
      with ok have "worker_got cfg s ch = WEnc ch 0" using worker_got_ok [OF nc0 err] by (simp add: all_ok_def)
      with got inv ts [of s "WEnc ch 0"] show ?thesis
        by (auto simp: ok_inv_def dest!: set_update_sub [THEN subsetD])
    next
      case (enc ch i)
      then have "ch \<in> R" using mem by (auto simp: mem_inv_def dest!: nth_mem)
      with ok have "w_ok (worker_enc cfg s ch i)" using worker_enc_ok [OF nc0] by (simp add: all_ok_def)
      with enc inv ts [of s "worker_enc cfg s ch i"] show ?thesis
        by (auto simp: ok_inv_def dest!: set_update_sub [THEN subsetD])
    next
      case (rel ch ro)
      then have "w_ok (WRel ch ro)" "rel_ok (WRel ch ro)" using wok relok by (metis nth_mem)+
      then obtain r where r: "ro = Some r" "er_error r = None" "er_idx r = c_idx ch"
        by (cases ro) auto
      with rel(1,2,3) inv ts [of "s\<lparr>p_sem := Suc (p_sem s)\<rparr>" "WSend r"] show ?thesis
        by (auto simp: ok_inv_def tokens_def dest!: set_update_sub [THEN subsetD])
    next
      case (send_res r)
      then have "er_error r = None" using wok by (metis nth_mem w_ok.simps(5))
      with send_res inv ts [of "s\<lparr>p_results := p_results s @ [r]\<rparr>" WIdle] show ?thesis
        by (auto simp: ok_inv_def tokens_def ac_simps dest!: set_update_sub [THEN subsetD])
    qed
  next
    case collect then show ?thesis
      by (cases rule: collect_step_cases) (use inv in \<open>auto simp: ok_inv_def tokens_def comp_of_def\<close>)
  qed
qed

lemma tokens_init: "tokens (init_pool chunks resume n permits) = mset (map c_idx (remaining_chunks chunks resume))"
  by (simp add: tokens_def init_pool_simps d_tok_def)

lemma init_invs:
  assumes s0: "s0 = init_pool chunks resume n permits" and cfg: "cfg = setup_cfg env src_ok permits s0"
  shows "pool_inv cfg s0 s0" "mem_inv (set (remaining_chunks chunks resume)) s0" "ok_inv s0 s0"
    "prog_inv (init_progress chunks resume) s0" "size (tokens s0) = pc_res_cap cfg"
  by (auto simp: s0 cfg pool_inv_def sem_inv_def permits_out_def init_pool_simps setup_cfg_simps d_holds_def
      exit_inv_def mem_inv_def d_in_def ok_inv_def prog_inv_def progress_after_def tokens_init)

lemma w_tok_exit: "\<forall>ws\<in>set xs. ws = WExit \<Longrightarrow> sum_list (map w_tok xs) = {#}"
  by (induction xs) auto

lemma reach_invs_step:
  assumes "reach_invs cfg s0 R pr0 n s" "pool_step cfg s e = Some s'"
  shows "reach_invs cfg s0 R pr0 n s'"
proof -
  have I: "pool_inv cfg s0 s" "mem_inv R s" "prog_inv pr0 s" "length (p_workers s) = n"
    "all_ok cfg R n \<Longrightarrow> \<not> p_cancel s \<Longrightarrow> ok_inv s0 s"
    using assms(1) by (simp_all add: reach_invs_def)
  have "all_ok cfg R n \<Longrightarrow> \<not> p_cancel s' \<Longrightarrow> ok_inv s0 s'"
  proof -
    assume ok: "all_ok cfg R n" and nc: "\<not> p_cancel s'"
    then have "\<not> p_cancel s" using cancel_step [OF assms(2)] by blast
    with ok I show "ok_inv s0 s'"
      using ok_inv_step [OF assms(2) nc] by (simp add: pool_inv_def)
  qed
  with I show ?thesis
    using pool_inv_step [OF I(1) assms(2)] mem_inv_step [OF assms(2) I(2)] prog_inv_step [OF assms(2) I(3)]
      length_workers_step [OF assms(2)] by (simp add: reach_invs_def)
qed

lemma pool_reach_invs:
  assumes s0: "s0 = init_pool chunks resume n permits" and cfg: "cfg = setup_cfg env src_ok permits s0"
    and reach: "pool_reach cfg s0 s"
  shows "reach_invs cfg s0 (set (remaining_chunks chunks resume)) (init_progress chunks resume) n s"
  using reach
proof (rule pool_reach_induct_inv)
  show "reach_invs cfg s0 (set (remaining_chunks chunks resume)) (init_progress chunks resume) n s0"
    using init_invs [OF s0 cfg] by (simp add: reach_invs_def s0 init_pool_simps)
qed (rule reach_invs_step)

lemma w_tok_le: "w < length ws \<Longrightarrow> w_tok (ws ! w) \<subseteq># sum_list (map w_tok ws)"
proof (induction ws arbitrary: w)
  case Nil then show ?case by simp
next
  case (Cons x xs) then show ?case
    by (cases w) (simp_all add: subset_mset.add_increasing2 subset_mset.add_increasing)
qed

lemma tokens_worker_le: "w < length (p_workers s) \<Longrightarrow> w_tok (p_workers s ! w) \<subseteq># tokens s"
  using w_tok_le [of w "p_workers s"] by (auto simp: tokens_def intro: subset_mset.order_trans)

subsection \<open>Properties of EncodeAll\<close>

lemma count_le_one_distinct: "(\<And>a. count (mset xs) a \<le> 1) \<Longrightarrow> distinct xs"
proof (induction xs)
  case Nil then show ?case by simp
next
  case (Cons x xs)
  have x0: "count (mset xs) x = 0" using Cons.prems [of x] by simp
  have "count (mset xs) a \<le> 1" for a using Cons.prems [of a] x0 by (cases "a = x") (simp_all del: count_mset_0_iff)
  moreover note x0
  ultimately show ?case using Cons.IH by (simp add: count_mset_0_iff)
qed
lemma mset_sub_distinct:
  assumes sub: "mset xs \<subseteq># mset ys" and d: "distinct ys"
  shows "distinct xs"
proof (rule count_le_one_distinct)
  fix a
  have "count (mset xs) a \<le> count (mset ys) a" using sub by (rule mset_subset_eq_count)
  moreover have "count (mset ys) a \<le> 1" using d by (simp add: distinct_count_atmost_1)
  ultimately show "count (mset xs) a \<le> 1" by linarith
qed

lemma log_tokens: "mset (map cc_idx (p_log s)) \<subseteq># tokens s"
  by (simp add: tokens_def)

lemma send_tokens: "WSend r \<in> set (p_workers s) \<Longrightarrow> length (p_results s) < size (tokens s)"
proof -
  assume "WSend r \<in> set (p_workers s)"
  then obtain w where w: "w < length (p_workers s)" "p_workers s ! w = WSend r" by (auto simp: in_set_conv_nth)
  have "size (w_tok (WSend r)) \<le> size (sum_list (map w_tok (p_workers s)))"
    using w_tok_le [OF w(1)] w(2) by (metis size_mset_mono)
  then show ?thesis by (simp add: tokens_def)
qed

lemma progress_after_fields:
  "pr_chunks_total (progress_after pr cs) = pr_chunks_total pr
   \<and> pr_chunks_complete (progress_after pr cs) = pr_chunks_complete pr + int (length cs)
   \<and> pr_frames_complete (progress_after pr cs) = pr_frames_complete pr + sum_list (map cc_frames cs)
   \<and> pr_bytes_complete (progress_after pr cs) = pr_bytes_complete pr + sum_list (map cc_size cs)"
proof (induction cs arbitrary: pr)
  case Nil then show ?case by (simp add: progress_after_def)
next
  case (Cons c cs)
  from Cons.IH [of "add_comp pr c"] show ?case by (simp add: progress_after_def add_comp_def ac_simps)
qed

lemma remaining_length: "length (remaining_chunks chunks resume) \<le> length chunks"
  by (simp add: remaining_chunks_def)

lemma log_sub_remaining:
  assumes s0: "s0 = init_pool chunks resume n permits" and cfg: "cfg = setup_cfg env src_ok permits s0"
    and reach: "pool_reach cfg s0 s"
  shows "mset (map cc_idx (p_log s)) \<subseteq># mset (map c_idx (remaining_chunks chunks resume))"
proof -
  have "tokens s \<subseteq># tokens s0" using pool_reach_invs [OF s0 cfg reach] by (simp add: reach_invs_def pool_inv_def)
  with log_tokens [of s] show ?thesis by (simp add: s0 tokens_init)
qed

text \<open>C1. When every worker's video source opens and every remaining chunk's encode
  succeeds (pipe, process start, every frame extracted and written, clean exit, output
  stat-able), then in every final state of \<open>EncodeAll\<close> reached without the context
  being cancelled, whatever the interleaving: no error is returned, the resume log
  received exactly one record for each remaining chunk (as multisets of chunk indices),
  and each record carries its chunk's frame count.\<close>

theorem pool_all_encoded:
  assumes s0: "s0 = init_pool chunks resume n permits" and cfg: "cfg = setup_cfg env src_ok permits s0"
    and n: "0 < n" and src: "\<forall>w<n. src_ok w"
    and enc: "\<forall>ch\<in>set (remaining_chunks chunks resume). stream_ok (env ch) ch (\<lambda>_. False)"
    and reach: "pool_reach cfg s0 s" and fin: "pool_final s" and nc: "\<not> p_cancel s"
  shows "p_err s = None
    \<and> mset (map cc_idx (p_log s)) = mset (map c_idx (remaining_chunks chunks resume))
    \<and> (\<forall>c\<in>set (p_log s). \<exists>ch\<in>set (remaining_chunks chunks resume). cc_idx c = c_idx ch \<and> cc_frames c = chunk_frames ch)"
proof -
  let ?R = "set (remaining_chunks chunks resume)"
  have I: "reach_invs cfg s0 ?R (init_progress chunks resume) n s" using pool_reach_invs [OF s0 cfg reach] .
  have ok: "all_ok cfg ?R n" using src enc by (simp add: all_ok_def cfg setup_cfg_simps)
  with I nc have oi: "ok_inv s0 s" by (simp add: reach_invs_def)
  have len: "length (p_workers s) = n" using I by (simp add: reach_invs_def)
  with fin have allx: "\<forall>ws\<in>set (p_workers s). ws = WExit" by (simp add: pool_final_def list_all_iff)
  with len n have ex: "WExit \<in> set (p_workers s)" by (cases "p_workers s") auto
  with I have "p_disp s = DDone" "p_chan s = []" by (auto simp: reach_invs_def pool_inv_def exit_inv_def)
  moreover from allx have "sum_list (map w_tok (p_workers s)) = {#}" by (rule w_tok_exit)
  ultimately have "tokens s = mset (map cc_idx (p_log s))"
    using oi fin by (simp add: tokens_def ok_inv_def d_tok_def pool_final_def)
  with oi have "mset (map cc_idx (p_log s)) = mset (map c_idx (remaining_chunks chunks resume))"
    by (simp add: ok_inv_def s0 tokens_init)
  moreover have "\<forall>c\<in>set (p_log s). comp_good ?R c" using I by (simp add: reach_invs_def mem_inv_def)
  ultimately show ?thesis using oi by (simp add: ok_inv_def comp_good_def)
qed

text \<open>C3. In every reachable state the permits are conserved: free permits plus the
  permits held by the dispatcher, by the chunks buffered in \<open>chunkChan\<close> and by the
  workers equal \<open>permits\<close>, so at most \<open>permits\<close> chunks are in flight.  Hence
  neither send of the program blocks for lack of buffer space: the dispatcher holding a
  permit always finds room in \<open>chunkChan\<close>, and a worker with a result always finds
  room in \<open>resultChan\<close>.\<close>

theorem pool_permits:
  assumes s0: "s0 = init_pool chunks resume n permits" and cfg: "cfg = setup_cfg env src_ok permits s0"
    and reach: "pool_reach cfg s0 s"
  shows "p_sem s + permits_out s = permits
    \<and> (\<forall>ch. p_disp s = DHeld ch \<longrightarrow> length (p_chan s) < permits)
    \<and> (\<forall>r. WSend r \<in> set (p_workers s) \<longrightarrow> length (p_results s) < length (remaining_chunks chunks resume))"
proof -
  have I: "pool_inv cfg s0 s" using pool_reach_invs [OF s0 cfg reach] by (simp add: reach_invs_def)
  then have sem: "p_sem s + permits_out s = permits" by (simp add: pool_inv_def sem_inv_def cfg setup_cfg_simps)
  have "size (tokens s) \<le> length (remaining_chunks chunks resume)"
    using I size_mset_mono [of "tokens s" "tokens s0"] by (simp add: pool_inv_def s0 tokens_init)
  with sem send_tokens [of _ s] show ?thesis by (fastforce simp: permits_out_def d_holds_def)
qed

text \<open>C4. When the chunk indices are distinct, no chunk is logged twice in a run, no
  chunk of the resume log's done set is ever logged again, and every record logged is
  that of a chunk of the plan with its frame count.\<close>

theorem pool_log_once:
  assumes s0: "s0 = init_pool chunks resume n permits" and cfg: "cfg = setup_cfg env src_ok permits s0"
    and reach: "pool_reach cfg s0 s" and dist: "distinct (map c_idx chunks)"
  shows "distinct (map cc_idx (p_log s))
    \<and> (\<forall>c\<in>set (p_log s). \<not> map_bool (done_set resume) (cc_idx c)
           \<and> (\<exists>ch\<in>set chunks. cc_idx c = c_idx ch \<and> cc_frames c = chunk_frames ch))"
proof -
  let ?R = "remaining_chunks chunks resume"
  have I: "reach_invs cfg s0 (set ?R) (init_progress chunks resume) n s" using pool_reach_invs [OF s0 cfg reach] .
  have "mset (map cc_idx (p_log s)) \<subseteq># mset (map c_idx ?R)" by (rule log_sub_remaining [OF s0 cfg reach])
  moreover have "distinct (map c_idx ?R)" using dist by (simp add: remaining_chunks_def distinct_map_filter)
  ultimately have "distinct (map cc_idx (p_log s))" by (rule mset_sub_distinct)
  moreover have "\<forall>c\<in>set (p_log s). comp_good (set ?R) c" using I by (simp add: reach_invs_def mem_inv_def)
  ultimately show ?thesis by (auto simp: comp_good_def remaining_chunks_def)
qed

text \<open>C13. The progress \<open>EncodeAll\<close> reports is the initial progress (chunks and
  frames of the resume log) plus the records logged in this run: chunks, frames and
  bytes (the byte count a wrapping \<open>uint64\<close> sum); the chunk count never exceeds the
  total, and each report passed to the callback counts exactly one more chunk than
  the previous one.\<close>

theorem pool_progress:
  assumes s0: "s0 = init_pool chunks resume n permits" and cfg: "cfg = setup_cfg env src_ok permits s0"
    and reach: "pool_reach cfg s0 s"
  shows "pr_chunks_complete (p_progress s) = pr_chunks_complete (init_progress chunks resume) + int (length (p_log s))
    \<and> pr_frames_complete (p_progress s) = total_encoded_frames resume + sum_list (map cc_frames (p_log s))
    \<and> pr_bytes_complete (p_progress s) = total_encoded_size resume + sum_list (map cc_size (p_log s))
    \<and> pr_chunks_complete (p_progress s) \<le> pr_chunks_total (p_progress s)
    \<and> map pr_chunks_complete (p_snaps s)
        = map (\<lambda>k. pr_chunks_complete (init_progress chunks resume) + int k + 1) [0..<length (p_log s)]"
proof -
  let ?R = "remaining_chunks chunks resume" and ?p0 = "init_progress chunks resume"
  have I: "reach_invs cfg s0 (set ?R) ?p0 n s" using pool_reach_invs [OF s0 cfg reach] .
  then have pr: "prog_inv ?p0 s" by (simp add: reach_invs_def)
  have "size (mset (map cc_idx (p_log s))) \<le> size (mset (map c_idx ?R))"
    by (rule size_mset_mono [OF log_sub_remaining [OF s0 cfg reach]])
  then have len: "length (p_log s) \<le> length ?R" by simp
  have snaps: "map pr_chunks_complete (p_snaps s) = map (\<lambda>k. pr_chunks_complete ?p0 + int k + 1) [0..<length (p_log s)]"
    using pr progress_after_fields by (simp add: prog_inv_def)
  from pr len remaining_length [of chunks resume] progress_after_fields [of ?p0 "p_log s"] snaps show ?thesis
    by (simp add: prog_inv_def init_progress_def)
qed

text \<open>C14. The first error is latched: once \<open>encodeErr\<close> holds an error, every later
  state holds the same error, whatever happens afterwards (\<open>CompareAndSwap(nil, ...)\<close>).\<close>

theorem pool_err_latched:
  assumes "pool_reach cfg s t" and "p_err s = Some e"
  shows "p_err t = Some e"
  using assms by induction (simp_all add: err_step)

subsection \<open>Witnesses\<close>

lemma ex_stream_ok: "\<forall>ch\<in>set (remaining_chunks ex_chunks \<lparr>chunks_done = []\<rparr>). stream_ok env_ok ch (\<lambda>_. False)"
  by (simp add: remaining_chunks_def ex_chunks_def done_set_def map_bool_def stream_ok_def env_ok_def
      frame_count_def chunk_frames_def list_all_iff)

lemma ex_done_reach: "pool_reach ex_cfg ex_pool ex_done"
  using pool_run_reach [OF ex_ok_run reach_init] .

lemma ex_remaining: "remaining_chunks ex_chunks \<lparr>chunks_done = []\<rparr> = ex_chunks"
  by (simp add: remaining_chunks_def ex_chunks_def done_set_def map_bool_def)

theorem pool_all_encoded_witness:
  "pool_run ex_cfg ex_pool ok_events = Some ex_done \<and> pool_final ex_done \<and> p_err ex_done = None
   \<and> mset (map cc_idx (p_log ex_done)) = mset (map c_idx ex_chunks)"
proof -
  have fin: "pool_final ex_done" and nc: "\<not> p_cancel ex_done" by (simp_all add: ex_done_def pool_final_def)
  from pool_all_encoded [OF ex_pool_def ex_cfg_def _ _ ex_stream_ok ex_done_reach fin nc]
  show ?thesis using ex_ok_run fin by (simp add: ex_remaining)
qed

theorem pool_permits_witness:
  "pool_run ex_cfg ex_pool [EWorker 0, EDisp, EAcquire] = Some (ex_pool\<lparr>p_workers := [WIdle], p_sem := 0,
      p_disp := DHeld (hd ex_chunks), p_pending := tl ex_chunks\<rparr>)
   \<and> length (p_chan ex_pool) < 1"
proof -
  let ?s = "ex_pool\<lparr>p_workers := [WIdle], p_sem := 0, p_disp := DHeld (hd ex_chunks), p_pending := tl ex_chunks\<rparr>"
  have run: "pool_run ex_cfg ex_pool [EWorker 0, EDisp, EAcquire] = Some ?s"
    by (simp add: ex_pool_eq ex_cfg_def setup_cfg_def pool_eval ex_chunks_def)
  have "pool_reach ex_cfg ex_pool ?s" using pool_run_reach [OF run reach_init] .
  from pool_permits [OF ex_pool_def ex_cfg_def this] run show ?thesis by (simp add: ex_pool_eq)
qed

theorem pool_log_once_witness:
  "distinct (map c_idx ex_chunks) \<and> distinct (map cc_idx (p_log ex_done))"
proof -
  have d: "distinct (map c_idx ex_chunks)" by (simp add: ex_chunks_def)
  from pool_log_once [OF ex_pool_def ex_cfg_def ex_done_reach d] d show ?thesis by simp
qed

theorem pool_progress_witness:
  "pr_chunks_complete (p_progress ex_done) = 0 + int (length (p_log ex_done))
   \<and> pr_chunks_complete (p_progress ex_done) \<le> pr_chunks_total (p_progress ex_done)"
proof -
  have "pr_chunks_complete (init_progress ex_chunks \<lparr>chunks_done = []\<rparr>) = 0"
    by (simp add: init_progress_def ex_remaining)
  with pool_progress [OF ex_pool_def ex_cfg_def ex_done_reach] show ?thesis by simp
qed

theorem pool_err_latched_witness:
  "pool_run (ex_cfg\<lparr>pc_src_ok := \<lambda>_. False\<rparr>) ex_pool [EWorker 0, EDisp]
     = Some (ex_pool\<lparr>p_workers := [WDrain], p_err := Some SourceFailed, p_disp := DDone, p_pending := tl ex_chunks\<rparr>)
   \<and> p_err (ex_pool\<lparr>p_workers := [WDrain], p_err := Some SourceFailed, p_disp := DDone, p_pending := tl ex_chunks\<rparr>)
     = Some SourceFailed"
proof -
  let ?c = "ex_cfg\<lparr>pc_src_ok := \<lambda>_. False\<rparr>"
  let ?s1 = "ex_pool\<lparr>p_workers := [WDrain], p_err := Some SourceFailed\<rparr>"
  let ?s2 = "ex_pool\<lparr>p_workers := [WDrain], p_err := Some SourceFailed, p_disp := DDone, p_pending := tl ex_chunks\<rparr>"
  have r1: "pool_run ?c ex_pool [EWorker 0] = Some ?s1"
    by (simp add: ex_pool_eq ex_cfg_def setup_cfg_def pool_eval)
  have r2: "pool_run ?c ?s1 [EDisp] = Some ?s2"
    by (simp add: ex_pool_eq ex_cfg_def setup_cfg_def pool_eval ex_chunks_def)
  have "pool_reach ?c ?s1 ?s2" using pool_run_reach [OF r2 reach_init] .
  from pool_err_latched [OF this] have "p_err ?s2 = Some SourceFailed" by simp
  with r1 r2 show ?thesis by (simp add: ex_pool_eq ex_cfg_def setup_cfg_def pool_eval ex_chunks_def)
qed

end
