(* ===== verification/Pool_Liveness.thy ===== *)
theory Pool_Liveness
  imports Pool_Invariants
begin

text \<open>
  Progress of the worker pool of \<open>Pool_Model\<close>.  \<open>pool_pot\<close> weighs every chunk by the
  stages it still has to pass (dispatch, acquire, send, receive, check, one stage per
  frame, release, send, collect), every goroutine by the steps to its return, and the
  context by whether it can still be cancelled; every event lowers it, so every run is
  finite.  No reachable state other than a final one is stuck, so some run always
  reaches a final state: \<open>EncodeAll\<close> returns.  The last theorem shows that a
  cancellation while no chunk is in flight ends every run with no error and a chunk never
  encoded.
\<close>

fun w_pot :: "wstate \<Rightarrow> nat" where
  "w_pot WInit = 2"
| "w_pot WDrain = 1"
| "w_pot WDrainRel = 2"
| "w_pot WIdle = 1"
| "w_pot (WGot ch) = frame_count ch + 6"
| "w_pot (WEnc ch i) = frame_count ch - i + 5"
| "w_pot (WRel ch ro) = 4"
| "w_pot (WSend r) = 3"
| "w_pot WExit = 0"

definition d_pot :: "disp_state \<Rightarrow> nat" where
  "d_pot d = (case d of DTop \<Rightarrow> 1 | DAcquire ch \<Rightarrow> frame_count ch + 10 | DHeld ch \<Rightarrow> frame_count ch + 9 | DDone \<Rightarrow> 0)"

definition pool_pot :: "pool \<Rightarrow> nat" where
  "pool_pot s = 2 * (sum_list (map (\<lambda>ch. frame_count ch + 11) (p_pending s)) + d_pot (p_disp s)
       + sum_list (map (\<lambda>ch. frame_count ch + 7) (p_chan s)) + sum_list (map w_pot (p_workers s))
       + length (p_results s)) + (if p_cancel s then 0 else 1)"


text \<open>The state of the example run of \<open>Pool_Model\<close> after its first chunk is logged: the
  dispatcher is at its loop head with chunk 1 still to send, the worker idle.\<close>

definition ex_mid :: pool where
  "ex_mid = \<lparr>p_pending = [\<lparr>c_idx = 1, c_start = 2, c_end = 4\<rparr>], p_disp = DTop, p_sem = 1, p_chan = [],
     p_workers = [WIdle], p_results = [],
     p_progress = \<lparr>pr_chunks_total = 2, pr_chunks_complete = 1, pr_frames_total = 4, pr_frames_complete = 2,
                   pr_bytes_complete = 5000\<rparr>,
     p_err = None, p_log = [\<lparr>cc_idx = 0, cc_frames = 2, cc_size = 5000\<rparr>],
     p_snaps = [\<lparr>pr_chunks_total = 2, pr_chunks_complete = 1, pr_frames_total = 4, pr_frames_complete = 2,
                  pr_bytes_complete = 5000\<rparr>],
     p_cancel = False\<rparr>"

subsection \<open>Lemmas\<close>

lemma pot_set_worker:
  "w < length (p_workers s) \<Longrightarrow>
   sum_list (map w_pot (p_workers (set_worker s w ws))) + w_pot (p_workers s ! w) = sum_list (map w_pot (p_workers s)) + w_pot ws"
  using sum_map_update [of w "p_workers s" w_pot ws] by simp

lemma w_pot_got: "w_pot (worker_got cfg s ch) < frame_count ch + 6"
  by (simp add: worker_got_def Let_def)

lemma w_pot_enc: "w_pot (worker_enc cfg s ch i) < frame_count ch - i + 5"
  by (auto simp: worker_enc_def Let_def split: iter_outcome.splits)

lemma pot_disp_top: "p_disp s = DTop \<Longrightarrow> pool_pot (disp_top s) < pool_pot s"
  by (auto simp: disp_top_def pool_pot_def d_pot_def split: list.splits)

lemma pot_step:
  assumes step: "pool_step cfg s e = Some s'"
  shows "pool_pot s' < pool_pot s"
  using step
proof (cases rule: pool_step_cases)
  case cancel then show ?thesis by (simp add: pool_pot_def)
next
  case disp then show ?thesis
  proof (cases rule: disp_step_cases)
    case top then show ?thesis using pot_disp_top by simp
  qed (auto simp: pool_pot_def d_pot_def)
next
  case (worker w)
  note pw = pot_set_worker [of w]
  from worker show ?thesis
  proof (cases rule: worker_step_cases)
    case (got ch) with pw [of s "worker_got cfg s ch"] w_pot_got [of cfg s ch] show ?thesis
      by (simp add: pool_pot_def)
  next
    case (enc ch i) with pw [of s "worker_enc cfg s ch i"] w_pot_enc [of cfg s ch i] show ?thesis
      by (simp add: pool_pot_def)
  next
    case (rel ch ro) with pw [of "s\<lparr>p_sem := Suc (p_sem s)\<rparr>" "case ro of None \<Rightarrow> WIdle | Some r \<Rightarrow> WSend r"]
    show ?thesis by (simp add: pool_pot_def split: option.splits)
  next
    case init_ok with pw [of s WIdle] show ?thesis by (simp add: pool_pot_def)
  next
    case init_fail with pw [of "s\<lparr>p_err := latch (p_err s) SourceFailed\<rparr>" WDrain] show ?thesis
      by (simp add: pool_pot_def)
  next
    case (recv_drain ch rest) with pw [of "s\<lparr>p_chan := rest\<rparr>" WDrainRel] show ?thesis
      by (simp add: pool_pot_def)
  next
    case (recv ch rest) with pw [of "s\<lparr>p_chan := rest\<rparr>" "WGot ch"] show ?thesis
      by (simp add: pool_pot_def)
  next
    case close with pw [of s WExit] show ?thesis by (auto simp: pool_pot_def)
  next
    case drain_rel with pw [of "s\<lparr>p_sem := Suc (p_sem s)\<rparr>" WDrain] show ?thesis
      by (simp add: pool_pot_def)
  next
    case (send_res r) with pw [of "s\<lparr>p_results := p_results s @ [r]\<rparr>" WIdle] show ?thesis
      by (simp add: pool_pot_def)
  qed
next
  case collect then show ?thesis by (cases rule: collect_step_cases) (simp_all add: pool_pot_def)
qed

lemma w_holds_zero: "\<forall>ws\<in>set xs. ws \<in> {WExit, WIdle, WDrain} \<Longrightarrow> sum_list (map w_holds xs) = 0"
  by (induction xs) auto

lemma worker_enabled:
  assumes w: "w < length (p_workers s)" and ws: "p_workers s ! w \<notin> {WExit, WIdle, WDrain}"
    and res: "p_results s = []" and cap: "size (tokens s) \<le> pc_res_cap cfg"
  shows "worker_step cfg s w \<noteq> None"
proof (cases "p_workers s ! w")
  case (WSend r)
  have "size (w_tok (p_workers s ! w)) \<le> size (tokens s)" using tokens_worker_le [OF w] by (rule size_mset_mono)
  with WSend cap have "0 < pc_res_cap cfg" by simp
  with w WSend res show ?thesis by (simp add: worker_step_def)
qed (use w ws in \<open>simp_all add: worker_step_def\<close>)

lemma pool_not_stuck:
  assumes sem: "sem_inv cfg s" and cap: "0 < pc_chan_cap cfg" and res_cap: "size (tokens s) \<le> pc_res_cap cfg"
    and nf: "\<not> pool_final s"
  shows "\<exists>e. e \<noteq> ECancel \<and> pool_step cfg s e \<noteq> None"
proof (cases "p_results s")
  case (Cons r rest)
  then have "pool_step cfg s ECollect \<noteq> None" by (simp add: pool_step_def collect_step_def Let_def split: option.splits)
  then show ?thesis by blast
next
  case Nil
  then obtain w where w: "w < length (p_workers s)" "p_workers s ! w \<noteq> WExit"
    using nf by (auto simp: pool_final_def list_all_iff in_set_conv_nth)
  show ?thesis
  proof (cases "\<exists>v<length (p_workers s). p_workers s ! v \<notin> {WExit, WIdle, WDrain}")
    case True
    then obtain v where "v < length (p_workers s)" "p_workers s ! v \<notin> {WExit, WIdle, WDrain}" by blast
    with Nil res_cap worker_enabled have "pool_step cfg s (EWorker v) \<noteq> None" by (simp add: pool_step_def)
    then show ?thesis by blast
  next
    case False
    then have all: "\<forall>ws\<in>set (p_workers s). ws \<in> {WExit, WIdle, WDrain}" by (auto simp: in_set_conv_nth)
    from False w have ww: "p_workers s ! w = WIdle \<or> p_workers s ! w = WDrain" by auto
    show ?thesis
    proof (cases "p_chan s \<noteq> [] \<or> p_disp s = DDone")
      case True
      with w ww have "pool_step cfg s (EWorker w) \<noteq> None"
        by (auto simp: pool_step_def worker_step_def worker_recv_def split: list.splits)
      then show ?thesis by blast
    next
      case False
      then have chan: "p_chan s = []" and nd: "p_disp s \<noteq> DDone" by auto
      have "p_sem s + d_holds (p_disp s) = pc_chan_cap cfg"
        using sem chan w_holds_zero [OF all] by (simp add: sem_inv_def permits_out_def)
      then have "\<exists>e. e \<noteq> ECancel \<and> disp_step cfg s e \<noteq> None"
        using nd cap chan
        by (cases "p_disp s") (auto simp: disp_step_def d_holds_def intro: exI [of _ EDisp] exI [of _ EAcquire] exI [of _ ESend])
      then obtain e where "e \<noteq> ECancel" "disp_step cfg s e \<noteq> None" by blast
      moreover from this have "pool_step cfg s e = disp_step cfg s e"
        by (cases e) (simp_all add: pool_step_def disp_step_def split: disp_state.splits)
      ultimately show ?thesis by auto
    qed
  qed
qed

lemma pool_finishes:
  assumes reach: "pool_reach cfg s0 s" and inv0: "pool_inv cfg s0 s0"
    and cap: "0 < pc_chan_cap cfg" and rc: "size (tokens s0) \<le> pc_res_cap cfg"
  shows "\<exists>es s'. ECancel \<notin> set es \<and> pool_run cfg s es = Some s' \<and> pool_final s'"
  using reach
proof (induction "pool_pot s" arbitrary: s rule: less_induct)
  case less
  show ?case
  proof (cases "pool_final s")
    case True then show ?thesis by (intro exI [of _ "[]"]) simp
  next
    case False
    have inv: "pool_inv cfg s0 s" using pool_inv_reach [OF less.prems inv0] .
    then have "size (tokens s) \<le> pc_res_cap cfg"
      using rc size_mset_mono [of "tokens s" "tokens s0"] by (simp add: pool_inv_def)
    with inv cap False obtain e t where e: "e \<noteq> ECancel" "pool_step cfg s e = Some t"
      using pool_not_stuck [of cfg s] by (auto simp: pool_inv_def)
    have "pool_reach cfg s0 t" using reach_step [OF less.prems e(2)] .
    with less.hyps [OF pot_step [OF e(2)]] obtain es s' where
      "ECancel \<notin> set es" "pool_run cfg t es = Some s'" "pool_final s'" by blast
    with e show ?thesis by (intro exI [of _ "e # es"] exI [of _ s']) simp
  qed
qed


text \<open>Once the dispatcher has returned and no chunk is buffered, held or waiting as a
  result, the only steps left are the idle workers seeing the closed channel.\<close>

lemma ex_mid_run: "pool_run ex_cfg ex_pool (EWorker 0 # chunk_events) = Some ex_mid"
  by (simp add: ex_pool_eq ex_cfg_def setup_cfg_def chunk_events_def pool_eval ex_chunks_def ex_mid_def)

lemma idle_update:
  "list_all (\<lambda>ws. ws = WIdle \<or> ws = WExit) xs \<Longrightarrow> list_all (\<lambda>ws. ws = WIdle \<or> ws = WExit) (xs[w := WExit])"
  by (auto simp: list_all_iff dest: set_update_sub [THEN subsetD])

lemma quiet_step:
  assumes q: "p_disp s = DDone" "p_chan s = []" "p_results s = []" "list_all (\<lambda>ws. ws = WIdle \<or> ws = WExit) (p_workers s)"
    and st: "pool_step cfg s e = Some t"
  shows "p_disp t = DDone \<and> p_chan t = [] \<and> p_results t = [] \<and> list_all (\<lambda>ws. ws = WIdle \<or> ws = WExit) (p_workers t)
         \<and> p_err t = p_err s \<and> p_log t = p_log s"
  using st
proof (cases rule: pool_step_cases)
  case cancel then show ?thesis using q by simp
next
  case disp then show ?thesis using q by (cases rule: disp_step_cases) simp_all
next
  case (worker w)
  from worker show ?thesis
  proof (cases rule: worker_step_cases)
    case close then show ?thesis using q by (simp add: idle_update)
  qed (use q in \<open>auto simp: list_all_length\<close>)
next
  case collect then show ?thesis using q by (cases rule: collect_step_cases) simp_all
qed

lemma quiet_run:
  "p_disp s = DDone \<Longrightarrow> p_chan s = [] \<Longrightarrow> p_results s = [] \<Longrightarrow> list_all (\<lambda>ws. ws = WIdle \<or> ws = WExit) (p_workers s)
   \<Longrightarrow> pool_run cfg s es = Some t \<Longrightarrow> p_err t = p_err s \<and> p_log t = p_log s"
proof (induction es arbitrary: s)
  case Nil then show ?case by simp
next
  case (Cons e es)
  then obtain u where u: "pool_step cfg s e = Some u" "pool_run cfg u es = Some t" by (auto split: option.splits)
  with quiet_step [OF Cons.prems(1-4) u(1)] Cons.IH [of u] show ?case by simp
qed

lemma quiet_finish:
  "p_disp s = DDone \<Longrightarrow> p_chan s = [] \<Longrightarrow> p_results s = [] \<Longrightarrow> list_all (\<lambda>ws. ws = WIdle \<or> ws = WExit) (p_workers s)
   \<Longrightarrow> \<exists>es t. pool_run cfg s es = Some t \<and> pool_final t"
proof (induction "count (mset (p_workers s)) WIdle" arbitrary: s)
  case 0
  then have "list_all (\<lambda>ws. ws = WExit) (p_workers s)" by (auto simp: list_all_iff)
  then show ?case using 0 by (intro exI [of _ "[]"]) (simp add: pool_final_def)
next
  case (Suc k)
  then obtain w where w: "w < length (p_workers s)" "p_workers s ! w = WIdle"
    by (metis count_eq_zero_iff in_set_conv_nth nat.distinct(1) set_mset_mset)
  let ?t = "set_worker s w WExit"
  have st: "pool_step cfg s (EWorker w) = Some ?t"
    using w Suc.prems by (simp add: pool_step_def worker_step_def worker_recv_def)
  have "count (mset (p_workers ?t)) WIdle = k"
    using w Suc.hyps(2) by (simp add: mset_update)
  then obtain es t where "pool_run cfg ?t es = Some t" "pool_final t"
    using Suc.hyps(1) [of ?t] Suc.prems by (auto simp: idle_update)
  then show ?case using st by (intro exI [of _ "EWorker w # es"]) auto
qed

lemma top_cancel_step:
  assumes q: "p_disp s = DTop" "p_chan s = []" "p_results s = []" "list_all (\<lambda>ws. ws = WIdle \<or> ws = WExit) (p_workers s)"
    "p_cancel s" "p_pending s \<noteq> []"
    and st: "pool_step cfg s e = Some t"
  shows "p_disp t = DDone \<and> p_chan t = [] \<and> p_results t = [] \<and> p_workers t = p_workers s
         \<and> p_err t = p_err s \<and> p_log t = p_log s"
  using st
proof (cases rule: pool_step_cases)
  case disp then show ?thesis using q by (cases rule: disp_step_cases) (auto simp: disp_top_def split: list.splits)
next
  case (worker w)
  from worker show ?thesis by (cases rule: worker_step_cases) (use q in \<open>auto simp: list_all_length\<close>)
next
  case collect then show ?thesis using q by (cases rule: collect_step_cases) simp_all
qed (use q in simp)

subsection \<open>Properties\<close>

text \<open>C15. Every sequence of events the pool can perform from a state is no longer than
  the state's potential: each event strictly lowers \<open>pool_pot\<close> (the dispatcher, a
  worker or the collector moves a chunk one stage on, a worker encodes one more frame,
  or the context is cancelled once), so no interleaving of \<open>EncodeAll\<close>'s goroutines
  runs forever.\<close>

theorem pool_run_bounded: "pool_run cfg s es = Some s' \<Longrightarrow> length es \<le> pool_pot s"
proof (induction es arbitrary: s)
  case Nil then show ?case by simp
next
  case (Cons e es)
  then obtain t where t: "pool_step cfg s e = Some t" "pool_run cfg t es = Some s'"
    by (auto split: option.splits)
  with Cons.IH have "length es \<le> pool_pot t" by blast
  with pot_step [OF t(1)] show ?case by simp
qed

text \<open>C2. From every state reachable from the start of \<open>EncodeAll\<close> with at least one
  permit, the goroutines other than the canceller can always bring the pool to a final
  state, in which every worker has returned and the collector has drained
  \<open>resultChan\<close>: \<open>EncodeAll\<close> neither deadlocks nor runs forever.\<close>

theorem pool_terminates:
  assumes s0: "s0 = init_pool chunks resume n permits" and cfg: "cfg = setup_cfg env src_ok permits s0"
    and p: "0 < permits" and reach: "pool_reach cfg s0 s"
  shows "\<exists>es s'. ECancel \<notin> set es \<and> pool_run cfg s es = Some s' \<and> pool_final s'"
proof (rule pool_finishes [OF reach])
  show "pool_inv cfg s0 s0" and "size (tokens s0) \<le> pc_res_cap cfg" using init_invs [OF s0 cfg] by simp_all
  show "0 < pc_chan_cap cfg" using p by (simp add: cfg setup_cfg_simps)
qed

text \<open>C5. A cancellation of the context while no chunk is in flight is lost.  Take any
  state in which the dispatcher is at the top of its loop with a chunk \<open>ch\<close> still to
  dispatch, no chunk is buffered in \<open>chunkChan\<close> or held by a worker, no result waits in
  \<open>resultChan\<close> and no error is latched.  If the context is cancelled there, the pool can
  still reach a final state, and every continuation ends with no error and the resume log
  as it was: \<open>EncodeAll\<close> returns \<open>nil\<close> although \<open>ch\<close> was never encoded, and
  \<open>ProcessChunked\<close> goes on to merge the incomplete set of chunks.\<close>

theorem cancel_loses_chunk:
  assumes "p_disp s = DTop" "p_pending s = ch # rest" "p_chan s = []" "p_results s = []"
    and "list_all (\<lambda>ws. ws = WIdle \<or> ws = WExit) (p_workers s)" "p_err s = None" "\<not> p_cancel s"
  shows "(\<exists>es s'. pool_run cfg s (ECancel # es) = Some s' \<and> pool_final s')
       \<and> (\<forall>es s'. pool_run cfg s (ECancel # es) = Some s' \<longrightarrow> p_err s' = None \<and> p_log s' = p_log s)"
proof
  let ?c = "s\<lparr>p_cancel := True\<rparr>"
  have c: "pool_step cfg s ECancel = Some ?c" using assms by (simp add: pool_step_def)
  have d: "pool_step cfg ?c EDisp = Some (disp_top ?c)" using assms by (simp add: pool_step_def disp_step_def)
  have dt: "p_disp (disp_top ?c) = DDone" "p_chan (disp_top ?c) = []" "p_results (disp_top ?c) = []"
    "p_workers (disp_top ?c) = p_workers s"
    using assms by (simp_all add: disp_top_def)
  obtain es t where "pool_run cfg (disp_top ?c) es = Some t" "pool_final t"
    using quiet_finish [of "disp_top ?c" cfg] dt assms(5) by auto
  then show "\<exists>es s'. pool_run cfg s (ECancel # es) = Some s' \<and> pool_final s'"
    using c d by (intro exI [of _ "EDisp # es"]) auto
  show "\<forall>es s'. pool_run cfg s (ECancel # es) = Some s' \<longrightarrow> p_err s' = None \<and> p_log s' = p_log s"
  proof (intro allI impI)
    fix es s' assume r: "pool_run cfg s (ECancel # es) = Some s'"
    show "p_err s' = None \<and> p_log s' = p_log s"
    proof (cases es)
      case Nil then show ?thesis using r c assms by auto
    next
      case (Cons e es')
      then obtain u where u: "pool_step cfg ?c e = Some u" "pool_run cfg u es' = Some s'"
        using r c by (auto split: option.splits)
      have "p_disp u = DDone \<and> p_chan u = [] \<and> p_results u = [] \<and> p_workers u = p_workers s
            \<and> p_err u = p_err s \<and> p_log u = p_log s"
        using top_cancel_step [of ?c, OF _ _ _ _ _ _ u(1)] assms by simp
      then show ?thesis using quiet_run [of u cfg es' s'] u(2) assms by simp
    qed
  qed
qed

subsection \<open>Witnesses\<close>

theorem cancel_loses_chunk_witness:
  "pool_run ex_cfg ex_pool (EWorker 0 # chunk_events) = Some ex_mid
   \<and> (\<exists>es s'. pool_run ex_cfg ex_mid (ECancel # es) = Some s' \<and> pool_final s'
          \<and> p_err s' = None \<and> p_log s' = [\<lparr>cc_idx = 0, cc_frames = 2, cc_size = 5000\<rparr>])"
proof -
  have c: "(\<exists>es s'. pool_run ex_cfg ex_mid (ECancel # es) = Some s' \<and> pool_final s')
       \<and> (\<forall>es s'. pool_run ex_cfg ex_mid (ECancel # es) = Some s' \<longrightarrow> p_err s' = None \<and> p_log s' = p_log ex_mid)"
    using cancel_loses_chunk [of ex_mid "\<lparr>c_idx = 1, c_start = 2, c_end = 4\<rparr>" "[]" ex_cfg] by (simp add: ex_mid_def)
  then obtain es s' where "pool_run ex_cfg ex_mid (ECancel # es) = Some s'" "pool_final s'" by blast
  with c ex_mid_run show ?thesis by (auto simp: ex_mid_def)
qed

theorem pool_run_bounded_witness: "length cancel_events \<le> pool_pot ex_pool"
  using pool_run_bounded [OF ex_cancel_run] .

theorem pool_terminates_witness:
  "\<exists>es s'. ECancel \<notin> set es \<and> pool_run ex_cfg ex_pool es = Some s' \<and> pool_final s'"
  using pool_terminates [OF ex_pool_def ex_cfg_def _ reach_init] by simp

end
