(* ===== verification/Merge.thy ===== *)
theory Merge
  imports Chunk "HOL-Library.AList" "HOL-Library.List_Lexorder" "HOL-Library.Char_ord"
begin

text \<open>
  The bitstream merger of package chunk (the file \<open>merge.go\<close>, held in lines 159--365
  of \<open>src/internal/encoder/encoder.go\<close>): \<open>writeConcatFile\<close>, \<open>MergeOutput\<close> and
  \<open>MergeBatched\<close>.  The work directory is an association list from paths relative to
  the work directory to files; a file holds either a bitstream, a list of packets, or
  an FFmpeg concat list, the paths it names (\<open>writeConcatFile\<close> writes one
  \<open>file '<abs>'\<close> line per path; \<open>filepath.Abs\<close> is injective on these paths and is
  left out).  An \<open>ffmpeg -f concat -c copy\<close> run reads its list and writes the
  concatenation of the listed bitstreams; it fails when a listed file is missing, or
  when the environment says that run fails.  \<open>filepath.Glob\<close> lists the matching
  names of one directory in Go's byte order, which is the order of
  \<open>HOL-Library.List_Lexorder\<close> on strings of \<open>Char_ord\<close> characters.
\<close>

subsection \<open>The work directory\<close>

datatype fentry = Bits "int list" | ConcatList "string list"

type_synonym fsys = "(string \<times> fentry) list"

definition enc_path :: "string \<Rightarrow> string" where
  "enc_path name = ''encode/'' @ name"

definition tmp_path :: "string \<Rightarrow> string" where
  "tmp_path name = ''temp_merge/'' @ name"

text \<open>\<open>IVFPath(workDir, idx)\<close>.\<close>

definition ivf_path :: "int \<Rightarrow> string" where
  "ivf_path i = enc_path (ivf_name i)"

definition remove_file :: "fsys \<Rightarrow> string \<Rightarrow> fsys" where
  "remove_file fs p = AList.delete p fs"

text \<open>\<open>os.RemoveAll(tempDir)\<close>.\<close>

definition remove_tmp :: "fsys \<Rightarrow> fsys" where
  "remove_tmp fs = filter (\<lambda>(p, _). \<not> take 11 p = ''temp_merge/'') fs"

text \<open>\<open>os.Rename(old, new)\<close>: fails when \<open>old\<close> does not exist.\<close>

definition rename_file :: "fsys \<Rightarrow> string \<Rightarrow> string \<Rightarrow> fsys option" where
  "rename_file fs old new =
     (case map_of fs old of None \<Rightarrow> None | Some f \<Rightarrow> Some (AList.update new f (AList.delete old fs)))"

text \<open>\<open>filepath.Glob(filepath.Join(encodeDir, "*.ivf"))\<close>.\<close>

definition ends_ivf :: "string \<Rightarrow> bool" where
  "ends_ivf name \<longleftrightarrow> 4 \<le> length name \<and> drop (length name - 4) name = ''.ivf''"

definition is_enc_ivf :: "string \<Rightarrow> bool" where
  "is_enc_ivf p \<longleftrightarrow> take 7 p = ''encode/'' \<and> CHR ''/'' \<notin> set (drop 7 p) \<and> ends_ivf (drop 7 p)"

definition glob_ivf :: "fsys \<Rightarrow> string list" where
  "glob_ivf fs = sort (filter is_enc_ivf (map fst fs))"

subsection \<open>External effects\<close>

text \<open>Which \<open>os.Create\<close> of a concat list, which FFmpeg run (named by its output
  path) and whether \<open>os.MkdirAll(tempDir)\<close> succeed.\<close>

record merge_env =
  me_create_ok :: "string \<Rightarrow> bool"
  me_ffmpeg_ok :: "string \<Rightarrow> bool"
  me_mkdir_ok :: bool

datatype merge_error =
    BadFps
  | NoIvfFiles
  | ConcatWriteFailed
  | ConcatMergeFailed
  | MkdirFailed
  | BatchConcatFailed nat
  | BatchMergeFailed nat
  | FinalConcatFailed
  | FinalMergeFailed
  | RenameFailed

text \<open>\<open>writeConcatFile(concatPath, paths)\<close>.\<close>

definition write_concat :: "merge_env \<Rightarrow> fsys \<Rightarrow> string \<Rightarrow> string list \<Rightarrow> fsys option" where
  "write_concat env fs cp paths =
     (if me_create_ok env cp then Some (AList.update cp (ConcatList paths) fs) else None)"

definition bits_of :: "fsys \<Rightarrow> string \<Rightarrow> int list option" where
  "bits_of fs p = (case map_of fs p of Some (Bits b) \<Rightarrow> Some b | _ \<Rightarrow> None)"

text \<open>\<open>ffmpeg -f concat -safe 0 -i list -c copy ... -y out\<close>.\<close>

definition ffmpeg_concat :: "merge_env \<Rightarrow> fsys \<Rightarrow> string \<Rightarrow> string \<Rightarrow> fsys option" where
  "ffmpeg_concat env fs cp out =
     (case map_of fs cp of
        Some (ConcatList ps) \<Rightarrow>
          (case those (map (bits_of fs) ps) of
             Some bs \<Rightarrow> if me_ffmpeg_ok env out then Some (AList.update out (Bits (concat bs)) fs) else None
           | None \<Rightarrow> None)
      | _ \<Rightarrow> None)"

subsection \<open>MergeOutput\<close>

definition merge_output :: "merge_env \<Rightarrow> fsys \<Rightarrow> int \<Rightarrow> (merge_error \<times> fsys) + fsys" where
  "merge_output env fs fps_den =
     (if fps_den = 0 then Inl (BadFps, fs)
      else let ivfs = glob_ivf fs in
        if ivfs = [] then Inl (NoIvfFiles, fs)
        else case write_concat env fs ''concat.txt'' ivfs of
               None \<Rightarrow> Inl (ConcatWriteFailed, fs)
             | Some fs1 \<Rightarrow>
                 (case ffmpeg_concat env fs1 ''concat.txt'' ''video.mkv'' of
                    None \<Rightarrow> Inl (ConcatMergeFailed, fs1)
                  | Some fs2 \<Rightarrow> Inr (remove_file fs2 ''concat.txt'')))"

subsection \<open>MergeBatched\<close>

definition batch_size :: nat where "batch_size = 500"

definition batch_file :: "nat \<Rightarrow> string \<Rightarrow> string" where
  "batch_file b ext = tmp_path (''batch_'' @ fmt_04d (int b) @ ext)"

text \<open>The loop \<open>for start := 0; start < numChunks; start += batchSize\<close>, from batch
  \<open>b\<close> at chunk \<open>start\<close>; it returns the directory and the number of batches.\<close>

function batch_loop :: "merge_env \<Rightarrow> nat \<Rightarrow> nat \<Rightarrow> nat \<Rightarrow> fsys \<Rightarrow> (merge_error \<times> fsys) + (fsys \<times> nat)" where
  "batch_loop env n start b fs =
     (if start < n then
        (let end' = min (start + batch_size) n;
             cp = batch_file b ''.txt'';
             paths = map (\<lambda>i. ivf_path (int i)) [start..<end']
         in case write_concat env fs cp paths of
              None \<Rightarrow> Inl (BatchConcatFailed b, fs)
            | Some fs1 \<Rightarrow>
                (case ffmpeg_concat env fs1 cp (batch_file b ''.ivf'') of
                   None \<Rightarrow> Inl (BatchMergeFailed b, fs1)
                 | Some fs2 \<Rightarrow> batch_loop env n (start + batch_size) (Suc b) (remove_file fs2 cp)))
      else Inr (fs, b))"
  by pat_completeness auto
termination
  by (relation "measure (\<lambda>(env, n, start, b, fs). n - start)") (auto simp: batch_size_def)

declare batch_loop.simps [simp del]

definition merge_batched :: "merge_env \<Rightarrow> fsys \<Rightarrow> nat \<Rightarrow> (merge_error \<times> fsys) + fsys" where
  "merge_batched env fs n =
     (if n \<le> batch_size then Inr fs
      else if \<not> me_mkdir_ok env then Inl (MkdirFailed, fs)
      else case batch_loop env n 0 0 fs of
             Inl e \<Rightarrow> Inl e
           | Inr (fs1, nb) \<Rightarrow>
               (let fc = tmp_path ''final.txt'';
                    finals = map (\<lambda>i. batch_file i ''.ivf'') [0..<nb];
                    merged = enc_path ''merged.ivf''
                in case write_concat env fs1 fc finals of
                     None \<Rightarrow> Inl (FinalConcatFailed, fs1)
                   | Some fs2 \<Rightarrow>
                       (case ffmpeg_concat env fs2 fc merged of
                          None \<Rightarrow> Inl (FinalMergeFailed, fs2)
                        | Some fs3 \<Rightarrow>
                            (let fs4 = fold (\<lambda>i fs. remove_file fs (ivf_path (int i))) [0..<n] fs3 in
                             case rename_file fs4 merged (ivf_path 0) of
                               None \<Rightarrow> Inl (RenameFailed, fs4)
                             | Some fs5 \<Rightarrow> Inr (remove_tmp fs5)))))"

text \<open>Lines 240--250 of \<open>ProcessChunked\<close>: the batched merge for more than 500
  chunks, then \<open>MergeOutput\<close>.\<close>

definition merge_phase :: "merge_env \<Rightarrow> fsys \<Rightarrow> nat \<Rightarrow> int \<Rightarrow> (merge_error \<times> fsys) + fsys" where
  "merge_phase env fs n fps_den =
     (case (if n > 500 then merge_batched env fs n else Inr fs) of
        Inl e \<Rightarrow> Inl e
      | Inr fs1 \<Rightarrow> merge_output env fs1 fps_den)"

subsection \<open>Inputs of the properties\<close>

text \<open>A work directory whose encode directory holds the files \<open>0000.ivf\<close> ... of chunks
  \<open>0..n-1\<close>, with bitstreams \<open>c i\<close>; an environment in which every external call
  succeeds.\<close>

definition chunk_files :: "(nat \<Rightarrow> int list) \<Rightarrow> nat \<Rightarrow> fsys" where
  "chunk_files c n = map (\<lambda>i. (ivf_path (int i), Bits (c i))) [0..<n]"

definition merge_env_ok :: "merge_env \<Rightarrow> bool" where
  "merge_env_ok env \<longleftrightarrow> me_mkdir_ok env \<and> (\<forall>p. me_create_ok env p) \<and> (\<forall>p. me_ffmpeg_ok env p)"

definition merge_ok_env :: merge_env where
  "merge_ok_env = \<lparr>me_create_ok = (\<lambda>_. True), me_ffmpeg_ok = (\<lambda>_. True), me_mkdir_ok = True\<rparr>"


subsection \<open>Lemmas: file names and their order\<close>

text \<open>Digit strings of one length compare as their values do, so the \<open>%04d\<close> names of
  chunks below 10000 sort in index order, and distinct chunks have distinct names.\<close>

lemma digits_value_Cons: "digits_value (c # s) = digit_val c * 10 ^ length s + digits_value s"
proof -
  let ?f = "\<lambda>a c. 10 * a + digit_val c"
  have gen: "foldl ?f a s = a * 10 ^ length s + foldl ?f 0 s" for a
  proof (induction s arbitrary: a)
    case Nil then show ?case by simp
  next
    case (Cons x xs)
    have "foldl ?f a (x # xs) = (10 * a + digit_val x) * 10 ^ length xs + foldl ?f 0 xs"
      using Cons.IH [of "10 * a + digit_val x"] by simp
    also have "\<dots> = a * 10 ^ length (x # xs) + (digit_val x * 10 ^ length xs + foldl ?f 0 xs)"
      by (simp add: add_mult_distrib mult.assoc)
    also have "digit_val x * 10 ^ length xs + foldl ?f 0 xs = foldl ?f 0 (x # xs)"
      using Cons.IH [of "digit_val x"] by simp
    finally show ?case .
  qed
  show ?thesis using gen [of "digit_val c"] by (simp add: digits_value_def)
qed

lemma digit_val_lt: "dec_digit c \<Longrightarrow> digit_val c < 10"
  unfolding dec_digit_def digit_val_def by linarith

lemma digits_value_lt: "list_all dec_digit s \<Longrightarrow> digits_value s < 10 ^ length s"
proof (induction s)
  case Nil then show ?case by (simp add: digits_value_def)
next
  case (Cons c s)
  then have "digit_val c \<le> 9" "digits_value s < 10 ^ length s" using digit_val_lt [of c] by auto
  then have "digit_val c * 10 ^ length s + digits_value s < 9 * 10 ^ length s + 10 ^ length s"
    by (meson add_le_less_mono mult_le_mono1)
  then show ?case by (simp add: digits_value_Cons)
qed

lemma digit_less: "dec_digit a \<Longrightarrow> dec_digit b \<Longrightarrow> digit_val a < digit_val b \<Longrightarrow> a < b"
  by (simp add: dec_digit_def digit_val_def less_char_def)

lemma digit_eq: "dec_digit a \<Longrightarrow> dec_digit b \<Longrightarrow> digit_val a = digit_val b \<Longrightarrow> a = b"
proof -
  assume "dec_digit a" "dec_digit b" "digit_val a = digit_val b"
  then have "of_char a = (of_char b :: nat)" unfolding dec_digit_def digit_val_def by linarith
  then show "a = b" by (metis char_of_char)
qed

lemma digits_less:
  "length s = length t \<Longrightarrow> list_all dec_digit s \<Longrightarrow> list_all dec_digit t
   \<Longrightarrow> digits_value s < digits_value t \<Longrightarrow> s < t"
proof (induction s t rule: list_induct2)
  case Nil then show ?case by simp
next
  case (Cons a s b t)
  let ?k = "10 ^ length s"
  have vs: "digits_value s < ?k" using Cons.prems(1) digits_value_lt by simp
  have "digits_value t < 10 ^ length t" using Cons.prems(2) digits_value_lt by simp
  then have vt: "digits_value t < ?k" using Cons.hyps(1) by simp
  have lt: "digit_val a * ?k + digits_value s < digit_val b * ?k + digits_value t"
    using Cons.prems(3) Cons.hyps(1) by (simp add: digits_value_Cons)
  show ?case
  proof (cases "digit_val a < digit_val b")
    case True then show ?thesis using Cons.prems digit_less by simp
  next
    case False
    show ?thesis
    proof (cases "digit_val a = digit_val b")
      case True
      with lt have "digits_value s < digits_value t" by simp
      with Cons True digit_eq show ?thesis by simp
    next
      case ne: False
      with False have "digit_val b + 1 \<le> digit_val a" by simp
      then have "(digit_val b + 1) * ?k \<le> digit_val a * ?k" by (rule mult_le_mono1)
      then have "digit_val b * ?k + ?k \<le> digit_val a * ?k" by (simp add: algebra_simps)
      with lt vt have False by linarith
      then show ?thesis ..
    qed
  qed
qed

lemma length_nat_digits: "n < 10 ^ k \<Longrightarrow> 0 < k \<Longrightarrow> length (nat_digits n) \<le> k"
proof (induction n arbitrary: k rule: nat_digits.induct)
  case (1 n)
  show ?case
  proof (cases "n < 10")
    case True then show ?thesis using "1.prems" by (subst nat_digits.simps) simp
  next
    case False
    then obtain k' where k: "k = Suc k'" and "0 < k'" using "1.prems"
      by (cases k; cases "k - 1") (auto simp: not_less)
    moreover have "n div 10 < 10 ^ k'" using "1.prems"(1) k by (simp add: less_mult_imp_div_less mult.commute)
    ultimately show ?thesis using "1.IH" [OF False] False by (subst nat_digits.simps) simp
  qed
qed

lemma digits_value_zeros [simp]: "digits_value (replicate m (CHR ''0'') @ s) = digits_value s"
  by (induction m) (simp_all add: digits_value_Cons digit_val_def)

lemma fmt_04d_value [simp]: "digits_value (fmt_04d (int n)) = n"
  by (simp add: fmt_04d_def)

lemma fmt_04d_digits: "list_all dec_digit (fmt_04d (int n))"
  using nat_digits_all_digits [of n] by (auto simp: fmt_04d_def dec_digit_def list_all_iff)

lemma fmt_04d_length: "n < 10000 \<Longrightarrow> length (fmt_04d (int n)) = 4"
  using length_nat_digits [of n 4] by (simp add: fmt_04d_def)

lemma fmt_04d_inj: "fmt_04d (int i) = fmt_04d (int j) \<Longrightarrow> i = j"
  by (metis fmt_04d_value)

lemma fmt_04d_less: "i < j \<Longrightarrow> j < 10000 \<Longrightarrow> fmt_04d (int i) < fmt_04d (int j)"
  by (rule digits_less) (simp_all add: fmt_04d_length fmt_04d_digits)

lemma append_less_same_length: "length a = length b \<Longrightarrow> a < b \<Longrightarrow> a @ x < (b @ y :: 'a :: linorder list)"
  by (induction a b rule: list_induct2) auto

lemma prefix_less: "a < b \<Longrightarrow> p @ a < (p @ b :: 'a :: linorder list)"
  by (induction p) simp_all

lemma ivf_path_less: "i < j \<Longrightarrow> j < 10000 \<Longrightarrow> ivf_path (int i) < ivf_path (int j)"
  unfolding ivf_path_def enc_path_def ivf_name_def
  by (rule prefix_less, rule append_less_same_length) (simp_all add: fmt_04d_length fmt_04d_less)

lemma ivf_path_inj: "ivf_path (int i) = ivf_path (int j) \<Longrightarrow> i = j"
  by (simp add: ivf_path_def enc_path_def ivf_name_def fmt_04d_inj)

lemma sorted_ivf_paths: "n \<le> 10000 \<Longrightarrow> sorted (map (\<lambda>i. ivf_path (int i)) [0..<n])"
proof (induction n)
  case 0 then show ?case by simp
next
  case (Suc n)
  then have "\<forall>y\<in>set [0..<n]. ivf_path (int y) \<le> ivf_path (int n)"
    using ivf_path_less by (auto intro: less_imp_le)
  with Suc show ?case by (simp add: sorted_append)
qed

lemma is_enc_ivf_path: "is_enc_ivf (ivf_path (int i))"
proof -
  have "CHR ''/'' \<notin> set (fmt_04d (int i))"
    using fmt_04d_digits [of i] by (auto simp: list_all_iff dec_digit_def)
  then show ?thesis by (simp add: is_enc_ivf_def ivf_path_def enc_path_def ivf_name_def ends_ivf_def)
qed

lemma map_of_keys:
  "inj_on f (set xs) \<Longrightarrow> k \<in> set xs \<Longrightarrow> map_of (map (\<lambda>i. (f i, v i)) xs) (f k) = Some (v k)"
  by (induction xs) (auto simp: inj_on_def)

lemma those_map_Some: "(\<And>x. x \<in> set xs \<Longrightarrow> g x = Some (h x)) \<Longrightarrow> those (map g xs) = Some (map h xs)"
  by (induction xs) simp_all

lemma inj_ivf_path: "inj_on (\<lambda>i. ivf_path (int i)) A"
  by (auto simp: inj_on_def dest: ivf_path_inj)

lemma map_of_chunk_files:
  "i < n \<Longrightarrow> map_of (chunk_files c n @ others) (ivf_path (int i)) = Some (Bits (c i))"
  using map_of_keys [OF inj_ivf_path, of i "[0..<n]" "\<lambda>i. Bits (c i)"]
  by (simp add: chunk_files_def map_add_def split: option.splits)

lemma glob_chunk_files:
  assumes "\<forall>p\<in>fst ` set others. \<not> is_enc_ivf p" and "n \<le> 10000"
  shows "glob_ivf (chunk_files c n @ others) = map (\<lambda>i. ivf_path (int i)) [0..<n]"
proof -
  have "filter is_enc_ivf (map fst (chunk_files c n @ others)) = map (\<lambda>i. ivf_path (int i)) [0..<n]"
    using assms(1) by (auto simp: chunk_files_def comp_def is_enc_ivf_path filter_empty_conv)
  then show ?thesis using sorted_ivf_paths [OF assms(2)] by (simp add: glob_ivf_def sorted_sort_id)
qed

lemma ivf_not_concat: "is_enc_ivf p \<Longrightarrow> p \<noteq> ''concat.txt''"
  by (auto simp: is_enc_ivf_def)

lemma bits_of_update_other: "p \<noteq> q \<Longrightarrow> bits_of (AList.update q f fs) p = bits_of fs p"
  by (simp add: bits_of_def update_conv')

lemma merge_output_ok:
  assumes "fps_den \<noteq> 0" "glob_ivf fs = ps" "ps \<noteq> []" "those (map (bits_of fs) ps) = Some bs"
    "me_create_ok env ''concat.txt''" "me_ffmpeg_ok env ''video.mkv''"
  shows "\<exists>fs'. merge_output env fs fps_den = Inr fs' \<and> bits_of fs' ''video.mkv'' = Some (concat bs)"
proof -
  have "\<forall>p\<in>set ps. p \<noteq> ''concat.txt''" using assms(2) by (auto simp: glob_ivf_def is_enc_ivf_def)
  then have eq: "map (bits_of (AList.update ''concat.txt'' (ConcatList ps) fs)) ps = map (bits_of fs) ps"
    by (simp add: bits_of_update_other)
  have th: "those (map (bits_of (AList.update ''concat.txt'' (ConcatList ps) fs)) ps) = Some bs"
    using assms(4) by (simp only: eq)
  from assms(1,2,3,5,6) th show ?thesis
    by (simp add: merge_output_def write_concat_def ffmpeg_concat_def remove_file_def bits_of_def update_conv')
qed

lemma merge_env_ok_output: "merge_env_ok env \<Longrightarrow> me_create_ok env ''concat.txt'' \<and> me_ffmpeg_ok env ''video.mkv''"
  by (simp add: merge_env_ok_def)

end
