(* ===== verification/Merge_Props.thy ===== *)
theory Merge_Props
  imports Merge
begin

text \<open>
  Properties of the merger of \<open>Merge\<close>: the batch loop of \<open>MergeBatched\<close> writes one
  intermediate per batch of 500 chunks, holding the batch's bitstreams in order; the
  whole merge phase of \<open>ProcessChunked\<close> turns the chunk files into their
  concatenation in index order, for both merge paths; and after a successful batched
  merge the per-chunk files are gone, so that \<open>MergeBatched\<close> run again on the same
  directory cannot succeed.
\<close>

text \<open>The files the batch loop from batch \<open>b\<close> on may write or remove.\<close>

definition batch_touched :: "nat \<Rightarrow> string \<Rightarrow> bool" where
  "batch_touched b p \<longleftrightarrow> (\<exists>k\<ge>b. p = batch_file k ''.txt'' \<or> p = batch_file k ''.ivf'')"


subsection \<open>Lemmas\<close>

lemma batch_file_inj: "batch_file k e = batch_file k' e' \<Longrightarrow> length e = length e' \<Longrightarrow> k = k' \<and> e = e'"
proof -
  assume eq: "batch_file k e = batch_file k' e'" and l: "length e = length e'"
  then have "fmt_04d (int k) @ e = fmt_04d (int k') @ e'" by (simp add: batch_file_def tmp_path_def)
  moreover have "rev e = take (length e) (rev (fmt_04d (int k) @ e))" "rev e' = take (length e') (rev (fmt_04d (int k') @ e'))"
    by simp_all
  ultimately have "e = e'" using l by (metis rev_rev_ident)
  with eq show ?thesis by (auto simp: batch_file_def tmp_path_def dest: fmt_04d_inj)
qed

lemma ivf_not_tmp: "ivf_path i \<noteq> tmp_path x"
  by (simp add: ivf_path_def enc_path_def tmp_path_def)

lemma ivf_not_batch: "ivf_path i \<noteq> batch_file k e"
  by (simp add: batch_file_def ivf_not_tmp)

lemma concat_upt_split:
  "start \<le> m \<Longrightarrow> concat (map c [start..<min m n]) @ concat (map c [m..<n]) = concat (map c [start..<n])"
proof (cases "m \<le> n")
  case True
  moreover assume "start \<le> m"
  ultimately have "[start..<n] = [start..<m] @ [m..<n]" by (metis le_add_diff_inverse upt_add_eq_append)
  with \<open>m \<le> n\<close> show ?thesis by (simp add: min_def)
next
  case False then show ?thesis by (simp add: min_def)
qed

lemma batch_loop_ok:
  assumes "\<forall>i<n. bits_of fs (ivf_path (int i)) = Some (c i)"
    and "\<forall>k. me_create_ok env (batch_file k ''.txt'') \<and> me_ffmpeg_ok env (batch_file k ''.ivf'')"
  shows "\<exists>fs' nb bs. batch_loop env n start b fs = Inr (fs', nb) \<and> b \<le> nb
     \<and> those (map (\<lambda>k. bits_of fs' (batch_file k ''.ivf'')) [b..<nb]) = Some bs
     \<and> concat bs = concat (map c [start..<n])
     \<and> (\<forall>p. \<not> batch_touched b p \<longrightarrow> map_of fs' p = map_of fs p)"
  using assms
proof (induction env n start b fs rule: batch_loop.induct)
  case (1 env n start b fs)
  show ?case
  proof (cases "start < n")
    case False
    then show ?thesis by (subst batch_loop.simps) simp
  next
    case True
    let ?e = "min (start + batch_size) n" and ?cp = "batch_file b ''.txt''" and ?out = "batch_file b ''.ivf''"
    let ?ps = "map (\<lambda>i. ivf_path (int i)) [start..<?e]"
    let ?fs1 = "AList.update ?cp (ConcatList ?ps) fs"
    let ?blk = "concat (map c [start..<?e])"
    let ?fs2 = "AList.update ?out (Bits ?blk) ?fs1"
    let ?fs3 = "remove_file ?fs2 ?cp"
    have b1: "bits_of ?fs1 (ivf_path (int i)) = bits_of fs (ivf_path (int i))" for i
      by (rule bits_of_update_other [OF ivf_not_batch])
    have "those (map (bits_of ?fs1) ?ps) = Some (map c [start..<?e])"
      using those_map_Some [of "[start..<?e]" "\<lambda>i. bits_of ?fs1 (ivf_path (int i))" c] "1.prems"(1) b1
      by (simp add: comp_def)
    then have ff: "ffmpeg_concat env ?fs1 ?cp ?out = Some ?fs2"
      using "1.prems"(2) by (simp add: ffmpeg_concat_def update_conv')
    have wc: "write_concat env fs ?cp ?ps = Some ?fs1" using "1.prems"(2) by (simp add: write_concat_def)
    have cp_out: "?cp \<noteq> ?out" using batch_file_inj [of b "''.txt''" b "''.ivf''"] by auto
    have b3: "\<forall>i<n. bits_of ?fs3 (ivf_path (int i)) = Some (c i)"
      using "1.prems"(1) b1 ivf_not_batch by (simp add: remove_file_def bits_of_def update_conv')
    have step: "batch_loop env n start b fs = batch_loop env n (start + batch_size) (Suc b) ?fs3"
      by (subst batch_loop.simps) (simp add: True wc ff Let_def)
    obtain fs' nb bs where r: "batch_loop env n (start + batch_size) (Suc b) ?fs3 = Inr (fs', nb)"
      and nb: "Suc b \<le> nb" and th: "those (map (\<lambda>k. bits_of fs' (batch_file k ''.ivf'')) [Suc b..<nb]) = Some bs"
      and cc: "concat bs = concat (map c [start + batch_size..<n])"
      and un: "\<forall>p. \<not> batch_touched (Suc b) p \<longrightarrow> map_of fs' p = map_of ?fs3 p"
      using "1.IH" [OF True refl refl refl wc ff b3 "1.prems"(2)] by blast
    have "\<not> batch_touched (Suc b) ?out" by (auto simp: batch_touched_def dest: batch_file_inj)
    with un cp_out have out: "bits_of fs' ?out = Some ?blk"
      by (simp add: bits_of_def remove_file_def update_conv')
    have "[b..<nb] = b # [Suc b..<nb]" using nb by (simp add: upt_conv_Cons)
    with th out have th': "those (map (\<lambda>k. bits_of fs' (batch_file k ''.ivf'')) [b..<nb]) = Some (?blk # bs)"
      by simp
    have "?blk @ concat bs = concat (map c [start..<n])"
      using cc concat_upt_split [of start "start + batch_size" c n] by simp
    moreover have "\<forall>p. \<not> batch_touched b p \<longrightarrow> map_of fs' p = map_of fs p"
    proof (intro allI impI)
      fix p assume nt: "\<not> batch_touched b p"
      then have "\<not> batch_touched (Suc b) p" "p \<noteq> ?cp" "p \<noteq> ?out" by (auto simp: batch_touched_def)
      with un show "map_of fs' p = map_of fs p" by (simp add: remove_file_def update_conv')
    qed
    ultimately show ?thesis using step r nb th' by (intro exI [of _ fs'] exI [of _ nb] exI [of _ "?blk # bs"]) simp
  qed
qed

lemma batch_loop_distinct:
  "distinct (map fst fs) \<Longrightarrow> batch_loop env n start b fs = Inr (fs', nb) \<Longrightarrow> distinct (map fst fs')"
proof (induction env n start b fs rule: batch_loop.induct)
  case (1 env n start b fs)
  show ?case
  proof (cases "start < n")
    case False with "1.prems" show ?thesis by (subst (asm) batch_loop.simps) simp
  next
    case True
    let ?e = "min (start + batch_size) n" and ?cp = "batch_file b ''.txt''"
    let ?ps = "map (\<lambda>i. ivf_path (int i)) [start..<?e]"
    from "1.prems"(2) True obtain fs1 fs2 where
      wc: "write_concat env fs ?cp ?ps = Some fs1" and ff: "ffmpeg_concat env fs1 ?cp (batch_file b ''.ivf'') = Some fs2"
      and r: "batch_loop env n (start + batch_size) (Suc b) (remove_file fs2 ?cp) = Inr (fs', nb)"
      by (subst (asm) batch_loop.simps) (auto simp: Let_def split: option.splits)
    have "distinct (map fst fs1)" using wc "1.prems"(1) by (auto simp: write_concat_def distinct_update split: if_splits)
    then have "distinct (map fst fs2)" using ff
      by (auto simp: ffmpeg_concat_def distinct_update split: if_splits option.splits fentry.splits)
    then have "distinct (map fst (remove_file fs2 ?cp))" by (simp add: remove_file_def distinct_delete)
    from "1.IH" [OF True refl refl refl wc ff this r] show ?thesis .
  qed
qed

lemma distinct_singleton_set: "distinct xs \<Longrightarrow> set xs = {x} \<Longrightarrow> xs = [x]"
  by (cases xs) (auto simp: subset_singleton_iff)

lemma glob_single:
  assumes "distinct (map fst fs)" and "\<And>p. is_enc_ivf p \<Longrightarrow> p \<in> fst ` set fs \<longleftrightarrow> p = x" and "is_enc_ivf x"
  shows "glob_ivf fs = [x]"
proof -
  have "set (filter is_enc_ivf (map fst fs)) = {x}" using assms(2,3) by auto
  moreover have "distinct (filter is_enc_ivf (map fst fs))" using assms(1) by simp
  ultimately show ?thesis by (simp add: glob_ivf_def distinct_singleton_set)
qed

lemma map_of_fold_remove:
  "k \<in> set xs \<Longrightarrow> map_of (fold (\<lambda>i fs. remove_file fs (f i)) xs fs) (f k) = None"
proof (induction xs arbitrary: fs)
  case Nil then show ?case by simp
next
  case (Cons y ys)
  show ?case
  proof (cases "k \<in> set ys")
    case True with Cons.IH show ?thesis by simp
  next
    case False
    with Cons.prems have "k = y" by simp
    have "map_of (fold (\<lambda>i fs. remove_file fs (f i)) ys fs') (f k) = None" if "map_of fs' (f k) = None" for fs'
      using that by (induction ys arbitrary: fs') (simp_all add: remove_file_def delete_conv')
    then show ?thesis using \<open>k = y\<close> by (simp add: remove_file_def delete_conv')
  qed
qed

lemma map_of_fold_remove_other:
  "(\<And>i. i \<in> set xs \<Longrightarrow> f i \<noteq> p) \<Longrightarrow> map_of (fold (\<lambda>i fs. remove_file fs (f i)) xs fs) p = map_of fs p"
  by (induction xs arbitrary: fs) (auto simp: remove_file_def delete_conv')

lemma map_of_remove_tmp: "take 11 p \<noteq> ''temp_merge/'' \<Longrightarrow> map_of (remove_tmp fs) p = map_of fs p"
  by (induction fs) (auto simp: remove_tmp_def)

lemma distinct_remove_tmp: "distinct (map fst fs) \<Longrightarrow> distinct (map fst (remove_tmp fs))"
  by (induction fs) (auto simp: remove_tmp_def)

lemma enc_not_tmp: "is_enc_ivf p \<Longrightarrow> take 11 p \<noteq> ''temp_merge/''"
proof
  assume "is_enc_ivf p" "take 11 p = ''temp_merge/''"
  then have "take 7 (take 11 p) = ''encode/''" using take_take [of 7 11 p] by (simp add: is_enc_ivf_def)
  with \<open>take 11 p = ''temp_merge/''\<close> show False by simp
qed

lemma merged_not_ivf: "enc_path ''merged.ivf'' \<noteq> ivf_path i"
proof
  assume "enc_path ''merged.ivf'' = ivf_path i"
  then have eq: "''merged.ivf'' = fmt_04d i @ ''.ivf''" by (simp add: enc_path_def ivf_path_def ivf_name_def)
  have "fmt_04d i \<noteq> []" by (simp add: fmt_04d_def)
  with eq have "hd (fmt_04d i) = CHR ''m''" by (cases "fmt_04d i") auto
  moreover have "dec_digit (hd (fmt_04d i))"
  proof (cases "i < 0")
    case True then show ?thesis using \<open>hd (fmt_04d i) = CHR ''m''\<close> eq by (simp add: fmt_04d_def)
  next
    case False
    then obtain n where "i = int n" by (metis nonneg_int_cases not_less)
    with fmt_04d_digits [of n] \<open>fmt_04d i \<noteq> []\<close> show ?thesis by (cases "fmt_04d i") simp_all
  qed
  ultimately show False by (simp add: dec_digit_def)
qed

lemma touched_tmp: "batch_touched b p \<Longrightarrow> take 11 p = ''temp_merge/''"
  by (auto simp: batch_touched_def batch_file_def tmp_path_def)

lemma final_not_batch: "tmp_path ''final.txt'' \<noteq> batch_file k e"
  by (simp add: batch_file_def tmp_path_def)

lemma ivf_not_merged: "ivf_path i \<noteq> enc_path ''merged.ivf''"
  using merged_not_ivf [of i] by metis

lemma distinct_fold_remove:
  "distinct (map fst fs) \<Longrightarrow> distinct (map fst (fold (\<lambda>i fs. remove_file fs (f i)) xs fs))"
  by (induction xs arbitrary: fs) (simp_all add: remove_file_def distinct_delete)

lemma merge_batched_ok:
  assumes n: "batch_size < n" and files: "\<forall>i<n. bits_of fs (ivf_path (int i)) = Some (c i)"
    and env: "merge_env_ok env"
  shows "\<exists>fs'. merge_batched env fs n = Inr fs'
     \<and> bits_of fs' (ivf_path 0) = Some (concat (map c [0..<n]))
     \<and> (\<forall>i. 0 < i \<longrightarrow> i < n \<longrightarrow> map_of fs' (ivf_path (int i)) = None)
     \<and> map_of fs' (enc_path ''merged.ivf'') = None
     \<and> (\<forall>p. is_enc_ivf p \<longrightarrow> p \<noteq> enc_path ''merged.ivf'' \<longrightarrow> (\<forall>i<n. p \<noteq> ivf_path (int i))
           \<longrightarrow> map_of fs' p = map_of fs p)
     \<and> (distinct (map fst fs) \<longrightarrow> distinct (map fst fs'))"
proof -
  have e: "\<forall>k. me_create_ok env (batch_file k ''.txt'') \<and> me_ffmpeg_ok env (batch_file k ''.ivf'')"
    using env by (simp add: merge_env_ok_def)
  obtain fs1 nb bs where r: "batch_loop env n 0 0 fs = Inr (fs1, nb)"
    and th: "those (map (\<lambda>k. bits_of fs1 (batch_file k ''.ivf'')) [0..<nb]) = Some bs"
    and cc: "concat bs = concat (map c [0..<n])"
    and un: "\<forall>p. \<not> batch_touched 0 p \<longrightarrow> map_of fs1 p = map_of fs p"
    using batch_loop_ok [OF files e, of 0 0] by auto
  let ?fc = "tmp_path ''final.txt''" and ?m = "enc_path ''merged.ivf''"
  let ?finals = "map (\<lambda>i. batch_file i ''.ivf'') [0..<nb]"
  let ?fs2 = "AList.update ?fc (ConcatList ?finals) fs1"
  let ?all = "concat (map c [0..<n])"
  let ?fs3 = "AList.update ?m (Bits ?all) ?fs2"
  let ?fs4 = "fold (\<lambda>i fs. remove_file fs (ivf_path (int i))) [0..<n] ?fs3"
  let ?fs5 = "AList.update (ivf_path 0) (Bits ?all) (AList.delete ?m ?fs4)"
  have eq: "map (bits_of ?fs2) ?finals = map (\<lambda>k. bits_of fs1 (batch_file k ''.ivf'')) [0..<nb]"
    by (simp add: bits_of_update_other [OF final_not_batch [symmetric]])
  have "those (map (bits_of ?fs2) ?finals) = Some bs" using th by (simp only: eq)
  then have ff: "ffmpeg_concat env ?fs2 ?fc ?m = Some ?fs3"
    using env cc by (simp add: ffmpeg_concat_def update_conv' merge_env_ok_def)
  have m4: "map_of ?fs4 ?m = Some (Bits ?all)"
    by (subst map_of_fold_remove_other) (simp_all add: ivf_not_merged update_conv')
  have mb: "merge_batched env fs n = Inr (remove_tmp ?fs5)"
    using n env r ff m4 by (simp add: merge_batched_def write_concat_def rename_file_def merge_env_ok_def Let_def)
  have enc_un: "map_of fs1 p = map_of fs p" if "is_enc_ivf p" for p
    using un that touched_tmp enc_not_tmp by blast
  show ?thesis
  proof (intro exI conjI allI impI)
    show "merge_batched env fs n = Inr (remove_tmp ?fs5)" by (rule mb)
    have "is_enc_ivf (ivf_path 0)" using is_enc_ivf_path [of 0] by simp
    then have t0: "take 11 (ivf_path 0) \<noteq> ''temp_merge/''" by (rule enc_not_tmp)
    show "bits_of (remove_tmp ?fs5) (ivf_path 0) = Some ?all"
      by (simp add: map_of_remove_tmp [OF t0] bits_of_def update_conv')
  next
    fix i :: nat assume "0 < i" "i < n"
    then have "ivf_path (int i) \<noteq> ivf_path 0" using ivf_path_inj [of i 0] by auto
    moreover have "map_of ?fs4 (ivf_path (int i)) = None"
      using \<open>i < n\<close> map_of_fold_remove [of i "[0..<n]" "\<lambda>i. ivf_path (int i)"] by simp
    ultimately show "map_of (remove_tmp ?fs5) (ivf_path (int i)) = None"
      using merged_not_ivf [of "int i"]
      by (simp add: map_of_remove_tmp enc_not_tmp is_enc_ivf_path update_conv' delete_conv')
  next
    have "take 11 ?m \<noteq> ''temp_merge/''" by (simp add: enc_path_def)
    then show "map_of (remove_tmp ?fs5) ?m = None"
      using merged_not_ivf [of 0] by (simp add: map_of_remove_tmp update_conv' delete_conv')
  next
    fix p assume p: "is_enc_ivf p" "p \<noteq> ?m" "\<forall>i<n. p \<noteq> ivf_path (int i)"
    have "0 < n" using n by (simp add: batch_size_def)
    with p(3) have "p \<noteq> ivf_path (int 0)" by blast
    then have "p \<noteq> ivf_path 0" by simp
    moreover have "p \<noteq> ?fc" using p(1) by (auto simp: tmp_path_def is_enc_ivf_def)
    moreover have "map_of ?fs4 p = map_of ?fs3 p"
      by (rule map_of_fold_remove_other) (use p(3) in auto)
    ultimately show "map_of (remove_tmp ?fs5) p = map_of fs p"
      using p enc_un [OF p(1)] by (simp add: map_of_remove_tmp enc_not_tmp update_conv' delete_conv')
  next
    assume "distinct (map fst fs)"
    then have "distinct (map fst fs1)" using batch_loop_distinct [OF _ r] by simp
    then have "distinct (map fst ?fs3)" by (simp add: distinct_update)
    then have "distinct (map fst ?fs4)" by (rule distinct_fold_remove)
    then show "distinct (map fst (remove_tmp ?fs5))"
      by (simp add: distinct_remove_tmp distinct_update distinct_delete)
  qed
qed

lemma distinct_chunk_files:
  "\<forall>p\<in>fst ` set others. \<not> is_enc_ivf p \<Longrightarrow> distinct (map fst others)
   \<Longrightarrow> distinct (map fst (chunk_files c n @ others))"
proof -
  assume o: "\<forall>p\<in>fst ` set others. \<not> is_enc_ivf p" and d: "distinct (map fst others)"
  have "fst ` set (chunk_files c n) \<inter> fst ` set others = {}"
    using o is_enc_ivf_path by (fastforce simp: chunk_files_def)
  moreover have "distinct (map fst (chunk_files c n))"
    by (simp add: chunk_files_def distinct_map inj_ivf_path comp_def)
  ultimately show ?thesis using d by simp
qed

lemma chunk_files_bits: "\<forall>i<n. bits_of (chunk_files c n @ others) (ivf_path (int i)) = Some (c i)"
  using map_of_chunk_files by (simp add: bits_of_def del: map_of_append)

lemma merge_batched_drops_chunk_1:
  assumes mb: "merge_batched env fs n = Inr fs'" and n: "batch_size < n"
  shows "map_of fs' (ivf_path 1) = None"
proof -
  let ?rm = "\<lambda>f. fold (\<lambda>i fs. remove_file fs (ivf_path (int i))) [0..<n] f"
  from mb n obtain f fs5 where r: "rename_file (?rm f) (enc_path ''merged.ivf'') (ivf_path 0) = Some fs5"
    and fs': "fs' = remove_tmp fs5"
    by (auto simp: merge_batched_def Let_def split: if_splits sum.splits prod.splits option.splits)
  have n1: "1 < n" using n by (simp add: batch_size_def)
  have "map_of (?rm f) (ivf_path 1) = None"
    using map_of_fold_remove [of 1 "[0..<n]" "\<lambda>i. ivf_path (int i)" f] n1 by simp
  moreover have "ivf_path 1 \<noteq> ivf_path 0" using ivf_path_inj [of 1 0] by auto
  ultimately have "map_of fs5 (ivf_path 1) = None"
    using r by (auto simp: rename_file_def update_conv' delete_conv' split: option.splits)
  moreover have "take 11 (ivf_path 1) \<noteq> ''temp_merge/''" using enc_not_tmp is_enc_ivf_path [of 1] by simp
  ultimately show ?thesis by (simp add: fs' map_of_remove_tmp)
qed

lemma those_None: "x \<in> set xs \<Longrightarrow> g x = None \<Longrightarrow> those (map g xs) = None"
  by (induction xs) (auto split: option.splits)

lemma batch_loop_missing_1:
  assumes "map_of fs (ivf_path 1) = None" and "1 < n"
  shows "\<exists>e. batch_loop env n 0 0 fs = Inl e"
proof -
  let ?e = "min (0 + batch_size) n" and ?cp = "batch_file 0 ''.txt''"
  let ?ps = "map (\<lambda>i. ivf_path (int i)) [0..<?e]"
  have in1: "ivf_path 1 \<in> set ?ps" using assms(2) by (force simp: batch_size_def)
  have "those (map (bits_of (AList.update ?cp (ConcatList ?ps) fs)) ?ps) = None"
  proof (rule those_None [OF in1])
    have "bits_of (AList.update ?cp (ConcatList ?ps) fs) (ivf_path 1) = bits_of fs (ivf_path 1)"
      by (rule bits_of_update_other [OF ivf_not_batch])
    also have "\<dots> = None" using assms(1) by (simp add: bits_of_def)
    finally show "bits_of (AList.update ?cp (ConcatList ?ps) fs) (ivf_path 1) = None" .
  qed
  then have "ffmpeg_concat env (AList.update ?cp (ConcatList ?ps) fs) ?cp (batch_file 0 ''.ivf'') = None"
    by (simp add: ffmpeg_concat_def update_conv')
  then show ?thesis using assms(2)
    by (subst batch_loop.simps) (auto simp: Let_def write_concat_def)
qed


lemma merge_phase_chunk_files:
  assumes others: "\<forall>p\<in>fst ` set others. \<not> is_enc_ivf p" and dist: "distinct (map fst others)"
    and n: "0 < n" and d: "fps_den \<noteq> 0" and env: "merge_env_ok env"
  shows "\<exists>fs'. merge_phase env (chunk_files c n @ others) n fps_den = Inr fs'
            \<and> bits_of fs' ''video.mkv'' = Some (concat (map c [0..<n]))"
proof (cases "500 < n")
  case True
  let ?fs = "chunk_files c n @ others"
  have bn: "batch_size < n" using True by (simp add: batch_size_def)
  obtain fs1 where mb: "merge_batched env ?fs n = Inr fs1"
    and b0: "bits_of fs1 (ivf_path 0) = Some (concat (map c [0..<n]))"
    and gone: "\<forall>i. 0 < i \<longrightarrow> i < n \<longrightarrow> map_of fs1 (ivf_path (int i)) = None"
    and mg: "map_of fs1 (enc_path ''merged.ivf'') = None"
    and same: "\<forall>p. is_enc_ivf p \<longrightarrow> p \<noteq> enc_path ''merged.ivf'' \<longrightarrow> (\<forall>i<n. p \<noteq> ivf_path (int i))
                  \<longrightarrow> map_of fs1 p = map_of ?fs p"
    and ds: "distinct (map fst ?fs) \<longrightarrow> distinct (map fst fs1)"
    using merge_batched_ok [OF bn chunk_files_bits env] by blast
  have e0: "is_enc_ivf (ivf_path 0)" using is_enc_ivf_path [of 0] by simp
  have keys: "p \<in> fst ` set fs1 \<longleftrightarrow> p = ivf_path 0" if p: "is_enc_ivf p" for p
  proof (cases "p = ivf_path 0")
    case True
    from b0 obtain v where "map_of fs1 (ivf_path 0) = Some v" by (auto simp: bits_of_def split: option.splits)
    then have "(ivf_path 0, v) \<in> set fs1" by (rule map_of_SomeD)
    with True show ?thesis by force
  next
    case ne: False
    have "map_of fs1 p = None"
    proof (cases "p = enc_path ''merged.ivf'' \<or> (\<exists>i<n. p = ivf_path (int i))")
      case True then show ?thesis
      proof (elim disjE exE conjE)
        assume "p = enc_path ''merged.ivf''" with mg show ?thesis by simp
      next
        fix i assume i: "i < n" "p = ivf_path (int i)"
        have "i \<noteq> 0"
        proof
          assume "i = 0" with ne i show False by simp
        qed
        with gone i show ?thesis by simp
      qed
    next
      case False
      with same p have "map_of fs1 p = map_of ?fs p" by auto
      also have "\<dots> = None" using False p others
        by (auto simp: map_of_eq_None_iff chunk_files_def)
      finally show ?thesis .
    qed
    with ne show ?thesis by (simp add: map_of_eq_None_iff)
  qed
  have g: "glob_ivf fs1 = [ivf_path 0]"
    by (rule glob_single) (use ds distinct_chunk_files [OF others dist] keys e0 in auto)
  have th: "those (map (bits_of fs1) [ivf_path 0]) = Some [concat (map c [0..<n])]" using b0 by simp
  have ne: "[ivf_path 0] \<noteq> []" by simp
  obtain fs' where
    "merge_output env fs1 fps_den = Inr fs'" "bits_of fs' ''video.mkv'' = Some (concat [concat (map c [0..<n])])"
    using merge_output_ok [OF d g ne th] merge_env_ok_output [OF env] by blast
  with mb True show ?thesis by (simp add: merge_phase_def)
next
  case False
  let ?fs = "chunk_files c n @ others"
  let ?ps = "map (\<lambda>i. ivf_path (int i)) [0..<n]"
  have g: "glob_ivf ?fs = ?ps" using False by (intro glob_chunk_files [OF others]) simp
  have th: "those (map (bits_of ?fs) ?ps) = Some (map c [0..<n])"
    using those_map_Some [of "[0..<n]" "\<lambda>i. bits_of ?fs (ivf_path (int i))" c] chunk_files_bits [of n c others]
    by (simp add: comp_def)
  have ne: "?ps \<noteq> []" using n by simp
  obtain fs' where
    "merge_output env ?fs fps_den = Inr fs'" "bits_of fs' ''video.mkv'' = Some (concat (map c [0..<n]))"
    using merge_output_ok [OF d g ne th] merge_env_ok_output [OF env] by blast
  with False show ?thesis by (simp add: merge_phase_def)
qed

text \<open>C9. After \<open>MergeBatched\<close> has succeeded on more than 500 chunks, running it
  again on the resulting directory -- as a rerun of \<open>ProcessChunked\<close> does after a
  later failure of \<open>MergeOutput\<close>, the audio extraction or the final mux -- fails
  whatever the environment: the per-chunk files the first batch lists were removed.\<close>

theorem merge_batched_retry_fails:
  assumes "merge_batched env fs n = Inr fs'" and "batch_size < n"
  shows "merge_batched env' fs' n \<noteq> Inr fs''"
proof
  assume re: "merge_batched env' fs' n = Inr fs''"
  have "map_of fs' (ivf_path 1) = None" by (rule merge_batched_drops_chunk_1 [OF assms])
  moreover have "1 < n" using assms(2) by (simp add: batch_size_def)
  ultimately obtain e where "batch_loop env' n 0 0 fs' = Inl e" using batch_loop_missing_1 by blast
  with re assms(2) show False by (simp add: merge_batched_def split: if_splits)
qed


subsection \<open>Witnesses\<close>

subsection \<open>Properties\<close>

text \<open>C8. The merge phase of \<open>ProcessChunked\<close> (\<open>MergeBatched\<close> when there are more
  than 500 chunks, then \<open>MergeOutput\<close>) turns an encode directory holding the files
  of chunks \<open>0..n-1\<close> (and no other \<open>.ivf\<close> file) into a video whose bitstream is
  the chunks' bitstreams concatenated in index order, on both paths, when every
  external call succeeds: the spec's law \<open>merge(split(v)) = v\<close>.\<close>

theorem merge_phase_roundtrip:
  assumes "\<forall>p\<in>fst ` set others. \<not> is_enc_ivf p" "distinct (map fst others)"
    and "0 < n" "fps_den \<noteq> 0" "merge_env_ok env"
  shows "\<exists>fs'. merge_phase env (chunk_files c n @ others) n fps_den = Inr fs'
            \<and> bits_of fs' ''video.mkv'' = Some (concat (map c [0..<n]))"
  using assms by (rule merge_phase_chunk_files)

theorem merge_phase_roundtrip_witness:
  "\<exists>fs'. merge_phase merge_ok_env (chunk_files (\<lambda>i. [int i]) 501) 501 1 = Inr fs'
     \<and> bits_of fs' ''video.mkv'' = Some (map int [0..<501])"
proof -
  have "merge_env_ok merge_ok_env" by (simp add: merge_env_ok_def merge_ok_env_def)
  from merge_phase_roundtrip [of "[]" 501 1 merge_ok_env "\<lambda>i. [int i]", OF _ _ _ _ this] show ?thesis by simp
qed

theorem merge_batched_retry_fails_witness:
  "\<exists>fs'. merge_batched merge_ok_env (chunk_files (\<lambda>i. [int i]) 501) 501 = Inr fs'
     \<and> (\<forall>fs''. merge_batched merge_ok_env fs' 501 \<noteq> Inr fs'')"
proof -
  have "merge_env_ok merge_ok_env" by (simp add: merge_env_ok_def merge_ok_env_def)
  moreover have "batch_size < 501" by (simp add: batch_size_def)
  ultimately obtain fs' where r: "merge_batched merge_ok_env (chunk_files (\<lambda>i. [int i]) 501) 501 = Inr fs'"
    using merge_batched_ok [OF _ chunk_files_bits [of 501 "\<lambda>i. [int i]" "[]", simplified]] by blast
  have "\<forall>fs''. merge_batched merge_ok_env fs' 501 \<noteq> Inr fs''"
    using merge_batched_retry_fails [OF r] by (simp add: batch_size_def)
  with r show ?thesis by blast
qed

end
