(* ===== verification/Crop.thy ===== *)
theory Crop
  imports Reel_Prelude "HOL-Library.AList" "HOL-Library.Multiset"
begin

text \<open>
  The crop sampler, \<open>src/internal/processing/crop.go\<close>: the parsing of FFmpeg
  \<open>cropdetect\<close> output (\<open>cropRegex\<close>, \<open>isValidCropFormat\<close>), the plurality of one
  sample (\<open>sampleCropAtPosition\<close>), the aggregate decision over the 141 samples
  (\<open>DetectCrop\<close>), \<open>isEffectiveCrop\<close> and \<open>GetOutputDimensions\<close>.  The detector run
  at sample point \<open>i\<close> (position \<open>i/200\<close> of the duration) is a parameter returning
  its standard error text, or nothing when the process does not start.  Go's map
  iteration order, which \<open>sampleCropAtPosition\<close> and \<open>DetectCrop\<close> depend on, is a
  parameter \<open>ord\<close> that permutes the entries of the count map (a list of distinct keys
  with their counts, in insertion order); \<open>sort.Slice\<close>, not stable, is the stable
  sort of such a permutation, which covers every order it can produce.
  \<open>float64(count)/float64(total) > 0.8\<close> is \<open>5 \<cdot> count > 4 \<cdot> total\<close>: for totals up
  to 141 a quotient differs from \<open>4/5\<close> by at least \<open>1/705\<close>, far above the rounding
  error, and a quotient equal to \<open>4/5\<close> rounds to the literal \<open>0.8\<close>.
\<close>

subsection \<open>Strings\<close>

text \<open>\<open>strings.Split(s, sep)\<close> for a one-character separator.\<close>

fun split_on :: "char \<Rightarrow> string \<Rightarrow> string list" where
  "split_on c [] = [[]]"
| "split_on c (x # xs) = (if x = c then [] # split_on c xs
                          else (let ps = split_on c xs in (x # hd ps) # tl ps))"

text \<open>\<open>strconv.ParseUint(s, 10, 32)\<close>.\<close>

definition parse_u32 :: "string \<Rightarrow> nat option" where
  "parse_u32 s = (case parse_digits s of Some n \<Rightarrow> if n < 2 ^ 32 then Some n else None | None \<Rightarrow> None)"

definition trim_prefix :: "string \<Rightarrow> string \<Rightarrow> string" where
  "trim_prefix p s = (if take (length p) s = p then drop (length p) s else s)"

subsection \<open>Parsing cropdetect output\<close>

text \<open>\<open>crop=(\d+:\d+:\d+:\d+)\<close> at the start of a string: \<open>k\<close> groups of digits
  separated by colons, each group as long as possible.\<close>

fun crop_groups :: "nat \<Rightarrow> string \<Rightarrow> string option" where
  "crop_groups 0 s = None"
| "crop_groups (Suc k) s =
     (let d = takeWhile dec_digit s; r = drop (length d) s in
      if d = [] then None
      else if k = 0 then Some d
      else case r of
             c # r' \<Rightarrow> if c = CHR '':'' then map_option (\<lambda>g. d @ CHR '':'' # g) (crop_groups k r') else None
           | [] \<Rightarrow> None)"

definition match_crop_at :: "string \<Rightarrow> string option" where
  "match_crop_at s = (if take 5 s = ''crop='' then crop_groups 4 (drop 5 s) else None)"

text \<open>\<open>cropRegex.FindStringSubmatch(line)[1]\<close>: the leftmost match.\<close>

fun find_crop :: "string \<Rightarrow> string option" where
  "find_crop [] = None"
| "find_crop (c # cs) = (case match_crop_at (c # cs) of Some g \<Rightarrow> Some g | None \<Rightarrow> find_crop cs)"

definition is_valid_crop_format :: "string \<Rightarrow> bool" where
  "is_valid_crop_format s \<longleftrightarrow> (let ps = split_on CHR '':'' s in length ps = 4 \<and> list_all (\<lambda>p. parse_u32 p \<noteq> None) ps)"

subsection \<open>Count maps\<close>

text \<open>\<open>m[k]++\<close> on a \<open>map[string]int\<close>, entries in insertion order.\<close>

definition add_count :: "string \<Rightarrow> (string \<times> nat) list \<Rightarrow> (string \<times> nat) list" where
  "add_count k m = (case map_of m k of None \<Rightarrow> m @ [(k, 1)] | Some c \<Rightarrow> AList.update k (Suc c) m)"

definition count_map :: "string list \<Rightarrow> (string \<times> nat) list" where
  "count_map ks = fold add_count ks []"

text \<open>The scanner loop of \<open>sampleCropAtPosition\<close>: count the valid rectangles.\<close>

definition line_crop :: "string \<Rightarrow> string option" where
  "line_crop l = (case find_crop l of Some v \<Rightarrow> if is_valid_crop_format v then Some v else None | None \<Rightarrow> None)"

definition sample_counts :: "string list \<Rightarrow> (string \<times> nat) list" where
  "sample_counts lines = count_map (List.map_filter line_crop lines)"

text \<open>The \<open>range cropCounts\<close> loop keeping the first strictly larger count.\<close>

definition best_crop :: "(string \<times> nat) list \<Rightarrow> string" where
  "best_crop kvs = fst (fold (\<lambda>(k, c) (bk, bc). if bc < c then (k, c) else (bk, bc)) kvs ('''', 0))"

definition sample_crop :: "((string \<times> nat) list \<Rightarrow> (string \<times> nat) list) \<Rightarrow> string option \<Rightarrow> string" where
  "sample_crop ord out =
     (case out of
        None \<Rightarrow> ''''
      | Some txt \<Rightarrow> (let cc = sample_counts (scan_lines txt) in if cc = [] then '''' else best_crop (ord cc)))"

subsection \<open>The decision\<close>

record crop_result =
  cr_filter :: string
  cr_required :: bool
  cr_multiple :: bool
  cr_message :: string

text \<open>\<open>isEffectiveCrop(crop, w, h)\<close>.\<close>

definition is_effective_crop :: "string \<Rightarrow> u32 \<Rightarrow> u32 \<Rightarrow> bool" where
  "is_effective_crop crop w h =
     (let ps = split_on CHR '':'' crop in
      if length ps < 2 then True
      else case parse_u32 (ps ! 0) of
             None \<Rightarrow> True
           | Some cw \<Rightarrow> (case parse_u32 (ps ! 1) of
                          None \<Rightarrow> True
                        | Some ch \<Rightarrow> of_nat cw \<noteq> w \<or> of_nat ch \<noteq> h))"

definition no_crop :: "string \<Rightarrow> crop_result" where
  "no_crop msg = \<lparr>cr_filter = '''', cr_required = False, cr_multiple = False, cr_message = msg\<rparr>"

definition crop_to :: "string \<Rightarrow> crop_result" where
  "crop_to c = \<lparr>cr_filter = ''crop='' @ c, cr_required = True, cr_multiple = False,
                cr_message = ''Black bars detected''\<rparr>"

definition multiple_ratios :: crop_result where
  "multiple_ratios = \<lparr>cr_filter = '''', cr_required = False, cr_multiple = True,
                      cr_message = ''Multiple aspect ratios detected''\<rparr>"

definition effective_or_none :: "string \<Rightarrow> u32 \<Rightarrow> u32 \<Rightarrow> string \<Rightarrow> crop_result" where
  "effective_or_none c w h msg = (if is_effective_crop c w h then crop_to c else no_crop msg)"

text \<open>Lines 81--146 of \<open>DetectCrop\<close>, from the results of the samples (\<open>''''\<close> for a
  sample without a rectangle).\<close>

definition decide_crop ::
  "u32 \<Rightarrow> u32 \<Rightarrow> string list \<Rightarrow> ((string \<times> nat) list \<Rightarrow> (string \<times> nat) list) \<Rightarrow> crop_result" where
  "decide_crop w h samples ord =
     (let cc = count_map (filter (\<lambda>c. c \<noteq> '''') samples);
          msg = ''Analyzed '' @ fmt_int (int (length samples)) @ '' samples''
      in if cc = [] then no_crop msg
         else if length cc = 1 then effective_or_none (fst (hd cc)) w h msg
         else (let srt = sort_key (\<lambda>kc. - int (snd kc)) (ord cc);
                   most = hd srt;
                   total = sum_list (map snd cc)
               in if 4 * total < 5 * snd most then effective_or_none (fst most) w h msg
                  else multiple_ratios))"

text \<open>The 141 sample points \<open>i/200\<close>, \<open>i = 30..170\<close>, and the detector threshold.\<close>

definition sample_points :: "nat list" where
  "sample_points = [30..<171]"

definition crop_threshold :: "bool \<Rightarrow> u32" where
  "crop_threshold is_hdr = (if is_hdr then 100 else 16)"

definition detect_crop ::
  "bool \<Rightarrow> bool \<Rightarrow> u32 \<Rightarrow> u32 \<Rightarrow> (u32 \<Rightarrow> nat \<Rightarrow> string option)
   \<Rightarrow> (nat \<Rightarrow> (string \<times> nat) list \<Rightarrow> (string \<times> nat) list) \<Rightarrow> ((string \<times> nat) list \<Rightarrow> (string \<times> nat) list)
   \<Rightarrow> crop_result" where
  "detect_crop disable is_hdr w h det ord_sample ord =
     (if disable then no_crop ''Skipped''
      else decide_crop w h
             (map (\<lambda>i. sample_crop (ord_sample i) (det (crop_threshold is_hdr) i)) sample_points) ord)"

text \<open>\<open>GetOutputDimensions(w, h, cropFilter)\<close>.\<close>

definition get_output_dimensions :: "u32 \<Rightarrow> u32 \<Rightarrow> string \<Rightarrow> u32 \<times> u32" where
  "get_output_dimensions w h f =
     (if f = '''' then (w, h)
      else let ps = split_on CHR '':'' (trim_prefix ''crop='' f) in
        if 2 \<le> length ps then
          (case parse_u32 (ps ! 0) of
             Some cw \<Rightarrow> (case parse_u32 (ps ! 1) of Some ch \<Rightarrow> (of_nat cw, of_nat ch) | None \<Rightarrow> (w, h))
           | None \<Rightarrow> (w, h))
        else (w, h))"

subsection \<open>The rule of the spec\<close>

text \<open>Section 4.4: with \<open>C\<close> the chosen rectangles, no crop when \<open>C\<close> is empty; for one
  rectangle, crop to it unless it is the source; for more, crop to the most common
  rectangle when its share exceeds \<open>0.80\<close> and it is not the source; otherwise no
  crop.  \<open>Some r\<close> is "crop to \<open>r\<close>".\<close>

definition spec_crop :: "string list \<Rightarrow> u32 \<Rightarrow> u32 \<Rightarrow> string option" where
  "spec_crop rs w h =
     (if rs = [] then None
      else if length rs = 1 then (if is_effective_crop (hd rs) w h then Some (hd rs) else None)
      else case find (\<lambda>r. 4 * length rs < 5 * count_list rs r) rs of
             Some r \<Rightarrow> if is_effective_crop r w h then Some r else None
           | None \<Rightarrow> None)"

text \<open>The decision with the map order taken out: the dominant rectangle is the
  first entry of the count map whose share exceeds \<open>0.80\<close>.\<close>

definition decide_crop_canon :: "u32 \<Rightarrow> u32 \<Rightarrow> string list \<Rightarrow> crop_result" where
  "decide_crop_canon w h samples =
     (let rs = filter (\<lambda>c. c \<noteq> '''') samples; cc = count_map rs;
          msg = ''Analyzed '' @ fmt_int (int (length samples)) @ '' samples''
      in if cc = [] then no_crop msg
         else if length cc = 1 then effective_or_none (fst (hd cc)) w h msg
         else case find (\<lambda>kc. 4 * length rs < 5 * snd kc) cc of
                Some d \<Rightarrow> effective_or_none (fst d) w h msg
              | None \<Rightarrow> multiple_ratios)"

text \<open>The rectangle as \<open>cropdetect\<close> prints it, \<open>w:h:x:y\<close> in decimal.\<close>

definition crop_str :: "nat \<Rightarrow> nat \<Rightarrow> nat \<Rightarrow> nat \<Rightarrow> string" where
  "crop_str w h x y = nat_digits w @ CHR '':'' # nat_digits h @ CHR '':'' # nat_digits x @ CHR '':'' # nat_digits y"

definition crop_choice :: "crop_result \<Rightarrow> string option" where
  "crop_choice r = (if cr_required r then Some (drop 5 (cr_filter r)) else None)"

subsection \<open>Lemmas: count maps and the sorted head\<close>

lemma map_of_add_count:
  "map_of (add_count k m) = (map_of m)(k \<mapsto> (case map_of m k of None \<Rightarrow> 1 | Some c \<Rightarrow> Suc c))"
  by (auto simp: add_count_def update_conv' map_add_def split: option.splits intro!: ext)

lemma keys_add_count: "map fst (add_count k m) = (if k \<in> set (map fst m) then map fst m else map fst m @ [k])"
  by (auto simp: add_count_def map_of_eq_None_iff update_keys dest: map_of_SomeD
           split: option.splits)

lemma set_keys_add_count: "set (map fst (add_count k m)) = insert k (set (map fst m))"
  by (auto simp only: keys_add_count split: if_splits) auto

lemma sum_update_Some:
  fixes m :: "('k \<times> nat) list"
  shows "distinct (map fst m) \<Longrightarrow> map_of m k = Some c \<Longrightarrow>
   sum_list (map snd (AList.update k c' m)) + c = sum_list (map snd m) + c'"
proof (induction m)
  case (Cons a m)
  obtain k' v where a: "a = (k', v)" by fastforce
  show ?case
  proof (cases "k' = k")
    case True
    with Cons.prems a show ?thesis by simp
  next
    case False
    with Cons a show ?thesis by simp
  qed
qed simp

lemma count_map_snoc: "count_map (ks @ [k]) = add_count k (count_map ks)"
  by (simp add: count_map_def)

lemma count_map_facts:
  "distinct (map fst (count_map ks)) \<and> set (map fst (count_map ks)) = set ks
   \<and> map_of (count_map ks) = (\<lambda>k. if k \<in> set ks then Some (count_list ks k) else None)
   \<and> sum_list (map snd (count_map ks)) = length ks"
proof (induction ks rule: rev_induct)
  case Nil
  then show ?case by (simp add: count_map_def)
next
  case (snoc k ks)
  let ?m = "count_map ks"
  from snoc have d: "distinct (map fst ?m)" and s: "set (map fst ?m) = set ks"
    and mo: "map_of ?m = (\<lambda>k. if k \<in> set ks then Some (count_list ks k) else None)"
    and su: "sum_list (map snd ?m) = length ks" by blast+
  have "distinct (map fst (add_count k ?m))" using d by (simp add: keys_add_count s)
  moreover have "set (map fst (add_count k ?m)) = set (ks @ [k])"
    by (simp only: set_keys_add_count s) simp
  moreover have "map_of (add_count k ?m) = (\<lambda>j. if j \<in> set (ks @ [k]) then Some (count_list (ks @ [k]) j) else None)"
    by (auto simp: map_of_add_count mo intro!: ext)
  moreover have "sum_list (map snd (add_count k ?m)) = length (ks @ [k])"
  proof (cases "k \<in> set ks")
    case True
    then have "map_of ?m k = Some (count_list ks k)" by (simp add: mo)
    then show ?thesis using sum_update_Some [OF d, of k "count_list ks k" "Suc (count_list ks k)"] su
      by (simp add: add_count_def)
  next
    case False
    then have "map_of ?m k = None" by (simp add: mo)
    then show ?thesis using su by (simp add: add_count_def)
  qed
  ultimately show ?case by (simp add: count_map_snoc)
qed

lemma count_map_distinct: "distinct (map fst (count_map ks))"
  using count_map_facts [of ks] by (rule conjunct1)

lemma count_map_keys: "set (map fst (count_map ks)) = set ks"
  using count_map_facts [of ks] by (elim conjE)

lemma count_map_lookup: "map_of (count_map ks) = (\<lambda>k. if k \<in> set ks then Some (count_list ks k) else None)"
  using count_map_facts [of ks] by (elim conjE)

lemma count_map_sum: "sum_list (map snd (count_map ks)) = length ks"
  using count_map_facts [of ks] by (elim conjE)

lemma count_map_in:
  "(k, c) \<in> set (count_map ks) \<longleftrightarrow> k \<in> set ks \<and> c = count_list ks k"
proof -
  have "(k, c) \<in> set (count_map ks) \<longleftrightarrow> map_of (count_map ks) k = Some c"
    using count_map_distinct by (simp add: map_of_eq_Some_iff)
  then show ?thesis by (auto simp: count_map_lookup)
qed

lemma count_map_Nil: "count_map ks = [] \<longleftrightarrow> ks = []"
proof
  assume "count_map ks = []"
  then have "set ks = {}" using count_map_keys [of ks] by simp
  then show "ks = []" by simp
qed (simp add: count_map_def)

lemma sum_two_le:
  fixes f :: "'a \<Rightarrow> nat"
  assumes "distinct xs" "a \<in> set xs" "b \<in> set xs" "a \<noteq> b"
  shows "f a + f b \<le> sum_list (map f xs)"
proof -
  have "f a + f b = sum f {a, b}" using assms(4) by simp
  also have "\<dots> \<le> sum f (set xs)" using assms(2,3) by (intro sum_mono2) auto
  also have "\<dots> = sum_list (map f xs)" using assms(1) by (simp add: sum_list_distinct_conv_sum_set)
  finally show ?thesis .
qed

lemma hd_sort_key_max:
  assumes "xs \<noteq> []"
  shows "hd (sort_key (\<lambda>kc. - int (snd kc)) xs) \<in> set xs
     \<and> (\<forall>x\<in>set xs. snd x \<le> snd (hd (sort_key (\<lambda>kc. - int (snd kc)) xs)))"
proof -
  let ?s = "sort_key (\<lambda>kc. - int (snd kc)) xs"
  have ne: "?s \<noteq> []" using assms by (metis length_0_conv length_sort)
  then obtain y ys where s: "?s = y # ys" by (cases ?s) auto
  have "sorted (map (\<lambda>kc. - int (snd kc)) ?s)" by simp
  then have "\<forall>z\<in>set ys. - int (snd y) \<le> - int (snd z)" by (simp add: s)
  moreover have "set ?s = set xs" by simp
  ultimately show ?thesis using s by auto
qed

lemma dominant_unique:
  fixes cc :: "('k \<times> nat) list"
  assumes "distinct (map fst cc)" "d \<in> set cc" "4 * sum_list (map snd cc) < 5 * snd d"
    "e \<in> set cc" "e \<noteq> d"
  shows "snd e < snd d"
proof -
  have "distinct cc" using assms(1) by (simp add: distinct_map)
  then have "snd d + snd e \<le> sum_list (map snd cc)"
    using sum_two_le [of cc d e snd] assms(2,4,5) by auto
  then show ?thesis using assms(3) by linarith
qed

lemma sorted_head_find:
  fixes cc :: "('k \<times> nat) list"
  assumes "distinct (map fst cc)" "mset ys = mset cc" "cc \<noteq> []"
  defines "hh \<equiv> hd (sort_key (\<lambda>kc. - int (snd kc)) ys)"
  shows "(if 4 * sum_list (map snd cc) < 5 * snd hh then Some hh else None)
       = find (\<lambda>kc. 4 * sum_list (map snd cc) < 5 * snd kc) cc"
proof -
  let ?T = "sum_list (map snd cc)"
  have set: "set ys = set cc" using assms(2) by (metis set_mset_mset)
  have "ys \<noteq> []" using assms(2,3) by auto
  then have hin: "hh \<in> set cc" and hmax: "\<forall>x\<in>set cc. snd x \<le> snd hh"
    using hd_sort_key_max [of ys] set by (auto simp: hh_def)
  show ?thesis
  proof (cases "find (\<lambda>kc. 4 * ?T < 5 * snd kc) cc")
    case None
    then have "\<not> 4 * ?T < 5 * snd hh" using hin by (cases hh) (auto simp: find_None_iff)
    then show ?thesis using None by simp
  next
    case (Some d)
    then have din: "d \<in> set cc" and dom: "4 * ?T < 5 * snd d"
      by (auto simp: find_Some_iff)
    have "snd d \<le> snd hh" using hmax din by blast
    then have hdom: "4 * ?T < 5 * snd hh" using dom by linarith
    have "hh = d"
    proof (rule ccontr)
      assume "hh \<noteq> d"
      then have "snd hh < snd d" using dominant_unique [OF assms(1) din dom hin] by blast
      then show False using \<open>snd d \<le> snd hh\<close> by linarith
    qed
    then show ?thesis using Some hdom by simp
  qed
qed

lemma decide_crop_canon_eq:
  assumes "\<forall>xs. mset (ord xs) = mset xs"
  shows "decide_crop w h samples ord = decide_crop_canon w h samples"
proof -
  let ?rs = "filter (\<lambda>c. c \<noteq> '''') samples"
  let ?cc = "count_map ?rs"
  let ?hh = "hd (sort_key (\<lambda>kc. - int (snd kc)) (ord ?cc))"
  have "?cc \<noteq> [] \<Longrightarrow>
        (if 4 * length ?rs < 5 * snd ?hh then Some ?hh else None)
        = find (\<lambda>kc. 4 * length ?rs < 5 * snd kc) ?cc"
    using sorted_head_find [OF count_map_distinct assms [rule_format, of ?cc]]
    by (simp add: count_map_sum)
  then show ?thesis
    by (auto simp: decide_crop_def decide_crop_canon_def count_map_sum Let_def
             split: if_splits option.splits)
qed

subsection \<open>Lemmas: the decision against the rule of the spec\<close>

lemma count_map_length: "length (count_map rs) = card (set rs)"
proof -
  have "length (count_map rs) = length (map fst (count_map rs))" by simp
  also have "\<dots> = card (set (map fst (count_map rs)))"
    using count_map_distinct by (metis distinct_card)
  finally show ?thesis by (simp only: count_map_keys)
qed

lemma find_dominant_count:
  "map_option fst (find (\<lambda>kc. 4 * length rs < 5 * snd kc) (count_map rs))
   = find (\<lambda>r. 4 * length rs < 5 * count_list rs r) rs"
proof (cases "find (\<lambda>r. 4 * length rs < 5 * count_list rs r) rs")
  case None
  then have "\<forall>kc\<in>set (count_map rs). \<not> 4 * length rs < 5 * snd kc"
    by (auto simp: find_None_iff count_map_in)
  then have "find (\<lambda>kc. 4 * length rs < 5 * snd kc) (count_map rs) = None"
    by (force simp: find_None_iff)
  then show ?thesis using None by simp
next
  case (Some r)
  then have rin: "r \<in> set rs" and rdom: "4 * length rs < 5 * count_list rs r"
    by (auto simp: find_Some_iff)
  let ?d = "(r, count_list rs r)"
  have din: "?d \<in> set (count_map rs)" using rin by (simp add: count_map_in)
  then obtain e where fe: "find (\<lambda>kc. 4 * length rs < 5 * snd kc) (count_map rs) = Some e"
    using rdom by (metis (mono_tags, lifting) find_None_iff2 not_None_eq snd_conv)
  then have ein: "e \<in> set (count_map rs)" and edom: "4 * length rs < 5 * snd e"
    by (auto simp: find_Some_iff)
  have "e = ?d"
  proof (rule ccontr)
    assume ne: "e \<noteq> ?d"
    have "snd e < snd ?d"
      using dominant_unique [OF count_map_distinct din _ ein ne] rdom by (simp add: count_map_sum)
    moreover have "snd ?d < snd e"
      using dominant_unique [OF count_map_distinct ein _ din] ne edom by (simp add: count_map_sum)
    ultimately show False by simp
  qed
  then show ?thesis using fe Some by simp
qed

lemma crop_choice_effective:
  "crop_choice (effective_or_none c w h msg) = (if is_effective_crop c w h then Some c else None)"
  by (simp add: crop_choice_def effective_or_none_def crop_to_def no_crop_def)

lemma crop_choice_multiple [simp]: "crop_choice multiple_ratios = None"
  by (simp add: crop_choice_def multiple_ratios_def)

lemma crop_choice_none [simp]: "crop_choice (no_crop msg) = None"
  by (simp add: crop_choice_def no_crop_def)

lemma count_list_const: "set xs \<subseteq> {k} \<Longrightarrow> count_list xs k = length xs"
  by (induction xs) auto
lemma count_map_single:
  assumes "length (count_map rs) = 1"
  shows "count_map rs = [(hd rs, length rs)] \<and> rs \<noteq> [] \<and> set rs = {hd rs}"
proof -
  obtain p where "count_map rs = [p]" using assms by (auto simp: length_Suc_conv)
  moreover obtain k c where "p = (k, c)" by (cases p)
  ultimately have cc: "count_map rs = [(k, c)]" by simp
  have ks: "set rs = {k}" using count_map_keys [of rs] cc by simp
  then have ne: "rs \<noteq> []" by (metis empty_not_insert set_empty)
  then have "hd rs \<in> set rs" by (rule hd_in_set)
  then have hd: "hd rs = k" using ks by simp
  have cl: "count_list rs k = length rs" using ks by (simp add: count_list_const)
  have "(k, c) \<in> set (count_map rs)" using cc by simp
  then have "c = count_list rs k" by (simp add: count_map_in)
  then have "count_map rs = [(hd rs, length rs)]" using cc hd cl by simp
  moreover have "set rs = {hd rs}" using ks hd by simp
  ultimately show ?thesis using ne by blast
qed

lemma decide_canon_refines:
  "crop_choice (decide_crop_canon w h samples) = spec_crop (filter (\<lambda>c. c \<noteq> '''') samples) w h"
proof -
  let ?rs = "filter (\<lambda>c. c \<noteq> '''') samples"
  let ?msg = "''Analyzed '' @ fmt_int (int (length samples)) @ '' samples''"
  consider "?rs = []" | "length (count_map ?rs) = 1" | "?rs \<noteq> []" "length (count_map ?rs) \<noteq> 1" by blast
  then show ?thesis
  proof cases
    case 1
    then show ?thesis by (simp add: decide_crop_canon_def spec_crop_def count_map_def)
  next
    case 2
    note one = count_map_single [OF 2]
    have "find (\<lambda>r. 4 * length ?rs < 5 * count_list ?rs r) ?rs = Some (hd ?rs)"
    proof -
      obtain y ys where rs: "?rs = y # ys" using one by (metis list.exhaust)
      have "count_list ?rs y = length ?rs" using one rs by (simp add: count_list_const)
      then show ?thesis using rs by simp
    qed
    then show ?thesis using one
      by (auto simp: decide_crop_canon_def spec_crop_def crop_choice_effective Let_def)
  next
    case 3
    have "card (set ?rs) \<noteq> 1" using 3(2) by (simp add: count_map_length)
    have len: "length ?rs \<noteq> 1"
    proof
      assume "length ?rs = 1"
      then obtain a where "?rs = [a]" by (auto simp: length_Suc_conv)
      then show False using \<open>card (set ?rs) \<noteq> 1\<close> by simp
    qed
    moreover have "count_map ?rs \<noteq> []" using 3(1) by (simp add: count_map_Nil)
    note base = this len 3
    let ?Q = "\<lambda>kc. 4 * length ?rs < 5 * snd kc"
    let ?P = "\<lambda>r. 4 * length ?rs < 5 * count_list ?rs r"
    have eq: "map_option fst (find ?Q (count_map ?rs)) = find ?P ?rs" by (rule find_dominant_count)
    show ?thesis
    proof (cases "find ?Q (count_map ?rs)")
      case None
      then have "find ?P ?rs = None" using eq by simp
      then show ?thesis using None base by (simp add: decide_crop_canon_def spec_crop_def Let_def)
    next
      case (Some d)
      then have "find ?P ?rs = Some (fst d)" using eq by simp
      then show ?thesis using Some base
        by (simp add: decide_crop_canon_def spec_crop_def Let_def crop_choice_effective)
    qed
  qed
qed

subsection \<open>Lemmas: parsing and the whole detector\<close>

lemma crop_groups_more:
  "crop_groups (Suc (Suc k)) (nat_digits n @ CHR '':'' # r)
   = map_option (\<lambda>g. nat_digits n @ CHR '':'' # g) (crop_groups (Suc k) r)"
  by (simp add: takeWhile_nat_digits Let_def)

lemma crop_groups_last:
  "takeWhile dec_digit post = [] \<Longrightarrow> crop_groups (Suc 0) (nat_digits n @ post) = Some (nat_digits n)"
  by (simp add: takeWhile_nat_digits Let_def)

lemma match_crop_str:
  assumes "takeWhile dec_digit post = []"
  shows "match_crop_at (''crop='' @ crop_str w h x y @ post) = Some (crop_str w h x y)"
proof -
  have "crop_groups (Suc (Suc (Suc (Suc 0)))) (crop_str w h x y @ post) = Some (crop_str w h x y)"
    using assms by (simp add: crop_str_def crop_groups_more crop_groups_last del: crop_groups.simps)
  then show ?thesis by (simp add: match_crop_at_def numeral_eq_Suc)
qed

lemma take5_no_eq:
  assumes "CHR ''='' \<notin> set pre" "pre \<noteq> []"
  shows "CHR ''='' \<notin> set (take 5 (pre @ ''crop='' @ r))"
proof -
  let ?k = "5 - length pre"
  have k: "?k - 4 = 0" using assms(2) by (cases pre) auto
  have "''crop='' @ r = ''crop'' @ CHR ''='' # r" by simp
  then have "take ?k (''crop='' @ r) = take ?k ''crop''"
    using k by (simp only: take_append) simp
  then have "set (take ?k (''crop='' @ r)) \<subseteq> set ''crop''" by (metis set_take_subset)
  moreover have "set (take 5 pre) \<subseteq> set pre" by (rule set_take_subset)
  ultimately show ?thesis using assms(1) by (auto simp: take_append)
qed

lemma match_crop_eq: "match_crop_at s = Some g \<Longrightarrow> CHR ''='' \<in> set (take 5 s)"
  by (auto simp: match_crop_at_def split: if_splits)

lemma find_crop_prefix:
  "CHR ''='' \<notin> set pre \<Longrightarrow> find_crop (pre @ ''crop='' @ r) = find_crop (''crop='' @ r)"
proof (induction pre)
  case (Cons c pre)
  have "match_crop_at (c # pre @ ''crop='' @ r) = None"
    using take5_no_eq [of "c # pre" r] Cons.prems match_crop_eq by fastforce
  then show ?case using Cons by simp
qed simp

lemma find_crop_line:
  assumes "CHR ''='' \<notin> set pre" "takeWhile dec_digit post = []"
  shows "find_crop (pre @ ''crop='' @ crop_str w h x y @ post) = Some (crop_str w h x y)"
proof -
  have "find_crop (''crop='' @ crop_str w h x y @ post) = Some (crop_str w h x y)"
    using match_crop_str [OF assms(2)] by (simp add: crop_str_def)
  then show ?thesis using find_crop_prefix [OF assms(1)] by simp
qed

lemma split_on_none: "c \<notin> set xs \<Longrightarrow> split_on c xs = [xs]"
  by (induction xs) auto

lemma split_on_sep: "c \<notin> set xs \<Longrightarrow> split_on c (xs @ c # ys) = xs # split_on c ys"
  by (induction xs) auto

lemma colon_notin_digits [simp]: "CHR '':'' \<notin> set (nat_digits n)"
  using nat_digits_all_digits [of n] by (auto simp: list_all_iff)

lemma split_crop_str:
  "split_on CHR '':'' (crop_str w h x y) = [nat_digits w, nat_digits h, nat_digits x, nat_digits y]"
  by (simp add: crop_str_def split_on_sep split_on_none)

lemma parse_u32_nat_digits: "n < 2 ^ 32 \<Longrightarrow> parse_u32 (nat_digits n) = Some n"
  by (simp add: parse_u32_def)

lemma trim_crop_prefix: "trim_prefix ''crop='' (''crop='' @ s) = s"
  by (simp add: trim_prefix_def)

lemma valid_crop_str:
  "\<lbrakk>w < 2 ^ 32; h < 2 ^ 32; x < 2 ^ 32; y < 2 ^ 32\<rbrakk> \<Longrightarrow> is_valid_crop_format (crop_str w h x y)"
  by (simp add: is_valid_crop_format_def split_crop_str parse_u32_nat_digits)

lemma output_dims_crop_str:
  "\<lbrakk>w < 2 ^ 32; h < 2 ^ 32\<rbrakk> \<Longrightarrow>
   get_output_dimensions w0 h0 (''crop='' @ crop_str w h x y) = (of_nat w, of_nat h)"
  unfolding get_output_dimensions_def trim_crop_prefix
  by (simp add: split_crop_str parse_u32_nat_digits)

lemma effective_crop_str:
  "\<lbrakk>w < 2 ^ 32; h < 2 ^ 32\<rbrakk> \<Longrightarrow>
   is_effective_crop (crop_str w h x y) sw sh \<longleftrightarrow> (of_nat w, of_nat h) \<noteq> (sw, sh)"
  by (simp add: is_effective_crop_def split_crop_str parse_u32_nat_digits)

lemma digits_no_newline_crop_str: "CHR ''\<newline>'' \<notin> set (crop_str w h x y)"
  by (simp add: crop_str_def nat_digits_no_newline)

lemma scan_lines_single:
  assumes "CHR ''\<newline>'' \<notin> set l" "l \<noteq> []" "last l \<noteq> CHR 0x0D"
  shows "scan_lines l = [l]"
proof -
  have "split_lines [] (l @ []) = split_lines (rev l @ []) []"
    using assms(1) by (rule split_lines_word)
  then show ?thesis using assms(2,3) by (simp add: scan_lines_def drop_cr_def)
qed

lemma last_crop_str: "last (crop_str w h x y) \<noteq> CHR 0x0D"
proof -
  have "last (crop_str w h x y) = last (nat_digits y)" by (simp add: crop_str_def)
  moreover have "last (nat_digits y) \<in> set (nat_digits y)" by simp
  then have "dec_digit (last (nat_digits y))" using nat_digits_all_digits [of y] by (simp add: list_all_iff)
  moreover have "\<not> dec_digit (CHR 0x0D)" by (simp add: dec_digit_def)
  ultimately show ?thesis by metis
qed

lemma best_crop_single: "0 < c \<Longrightarrow> best_crop [(k, c)] = k"
  by (simp add: best_crop_def)

lemma sample_crop_line:
  assumes ord: "\<forall>xs. mset (ord xs) = mset xs"
    and pre: "CHR ''='' \<notin> set pre" "CHR ''\<newline>'' \<notin> set pre"
    and bnd: "w < 2 ^ 32" "h < 2 ^ 32" "x < 2 ^ 32" "y < 2 ^ 32"
  shows "sample_crop ord (Some (pre @ ''crop='' @ crop_str w h x y)) = crop_str w h x y"
proof -
  let ?r = "crop_str w h x y"
  let ?l = "pre @ ''crop='' @ ?r"
  have "last ?l = last ?r" by (simp add: crop_str_def)
  then have lines: "scan_lines ?l = [?l]"
    using pre(2) last_crop_str [of w h x y] digits_no_newline_crop_str [of w h x y]
    by (intro scan_lines_single) auto
  have "line_crop ?l = Some ?r"
    using find_crop_line [OF pre(1), of "[]"] valid_crop_str [OF bnd] by (simp add: line_crop_def)
  then have cnt: "sample_counts [?l] = [(?r, 1)]"
    by (simp add: sample_counts_def map_filter_simps count_map_def add_count_def)
  have "mset (ord [(?r, 1)]) = mset [(?r, 1)]" using ord by blast
  then have "ord [(?r, 1)] = [(?r, 1)]" by (metis mset_single_iff mset.simps)
  then show ?thesis unfolding sample_crop_def
    by (simp only: option.case lines cnt Let_def) (simp add: best_crop_single)
qed

lemma decide_crop_uniform:
  assumes "set samples = {r}" "r \<noteq> ''''"
  shows "decide_crop w h samples ord
         = effective_or_none r w h (''Analyzed '' @ fmt_int (int (length samples)) @ '' samples'')"
proof -
  let ?rs = "filter (\<lambda>c. c \<noteq> '''') samples"
  have rs: "set ?rs = {r}" using assms by auto
  then have "length (count_map ?rs) = 1" by (simp add: count_map_length)
  note one = count_map_single [OF this]
  have "hd ?rs = r" using one rs by simp
  then show ?thesis using one by (simp add: decide_crop_def Let_def)
qed

lemma detect_crop_uniform:
  assumes ord: "\<forall>i xs. mset (ord_s i xs) = mset xs"
    and det: "\<forall>t i. det t i = Some (pre @ ''crop='' @ crop_str cw ch x y)"
    and pre: "CHR ''='' \<notin> set pre" "CHR ''\<newline>'' \<notin> set pre"
    and bnd: "cw < 2 ^ 32" "ch < 2 ^ 32" "x < 2 ^ 32" "y < 2 ^ 32"
  shows "detect_crop False hdr w h det ord_s ord
         = effective_or_none (crop_str cw ch x y) w h ''Analyzed 141 samples''"
proof -
  let ?r = "crop_str cw ch x y"
  have "\<And>i. sample_crop (ord_s i) (det (crop_threshold hdr) i) = ?r"
    using sample_crop_line [OF _ pre bnd] ord det by simp
  then have s: "map (\<lambda>i. sample_crop (ord_s i) (det (crop_threshold hdr) i)) sample_points
              = map (\<lambda>i. ?r) sample_points" by simp
  have set: "set (map (\<lambda>i. ?r) sample_points) = {?r}" by (simp add: sample_points_def)
  have ne: "?r \<noteq> ''''" by (simp add: crop_str_def)
  have len: "length (map (\<lambda>i. ?r) sample_points) = 141" by (simp add: sample_points_def)
  have msg: "fmt_int (int 141) = ''141''" by (simp add: go_text_eval)
  have "detect_crop False hdr w h det ord_s ord = decide_crop w h (map (\<lambda>i. ?r) sample_points) ord"
    by (simp only: detect_crop_def if_False s)
  also have "\<dots> = effective_or_none ?r w h
                     (''Analyzed '' @ fmt_int (int (length (map (\<lambda>i. ?r) sample_points))) @ '' samples'')"
    using set ne by (rule decide_crop_uniform)
  finally show ?thesis by (simp only: len msg) simp
qed

lemma crop_groups_four: "crop_groups 4 s = crop_groups (Suc (Suc (Suc (Suc 0)))) s"
  by (simp add: numeral_eq_Suc)

lemmas crop_line_eval = line_crop_def match_crop_at_def crop_groups_four dec_digit_def
  is_valid_crop_format_def parse_u32_def parse_digits_def digits_value_def digit_val_def

end
