(* ===== verification/Crop_Props.thy ===== *)
theory Crop_Props
  imports Crop
begin

text \<open>
  The properties of the crop sampler (\<open>src/internal/processing/crop.go\<close>): the
  decision of \<open>DetectCrop\<close> is independent of Go's map order and implements the rule of
  the spec, the parsing of \<open>cropdetect\<close> output round-trips, the whole detector crops a
  uniform letterbox, and the per-sample plurality depends on the map order on ties.
\<close>

definition tie_out :: string where
  "tie_out = ''crop=1920:800:0:140\<newline>crop=1920:1040:0:20\<newline>''"

definition ex_samples :: "string list" where
  "ex_samples = [''1920:800:0:140'', '''', ''1920:800:0:140'', ''1920:1040:0:20'', ''1920:800:0:140'']"


lemma tie_lines: "List.map_filter line_crop (scan_lines tie_out) = [''1920:800:0:140'', ''1920:1040:0:20'']"
  by (simp add: tie_out_def scan_lines_def drop_cr_def map_filter_simps crop_line_eval)

text \<open>\<open>best_crop\<close> returns a rectangle of maximal count, and the first such one of
  the iteration order.\<close>

abbreviation best_step :: "string \<times> nat \<Rightarrow> string \<times> nat \<Rightarrow> string \<times> nat" where
  "best_step \<equiv> (\<lambda>(k, c) (bk, bc). if bc < c then (k, c) else (bk, bc))"

lemma fold_best_keep: "\<forall>p\<in>set xs. snd p \<le> c \<Longrightarrow> fold best_step xs (k, c) = (k, c)"
  by (induction xs) auto

lemma fold_best_max:
  "fold best_step xs (bk, bc) = (rk, rc) \<Longrightarrow>
   ((rk, rc) = (bk, bc) \<or> (rk, rc) \<in> set xs) \<and> bc \<le> rc \<and> (\<forall>p\<in>set xs. snd p \<le> rc)"
proof (induction xs arbitrary: bk bc)
  case Nil then show ?case by simp
next
  case (Cons p xs)
  obtain k c where p: "p = (k, c)" by (cases p)
  show ?case
  proof (cases "bc < c")
    case True
    then have "fold best_step xs (k, c) = (rk, rc)" using Cons.prems p by simp
    then show ?thesis using Cons.IH [of k c] True p by auto
  next
    case False
    then have "fold best_step xs (bk, bc) = (rk, rc)" using Cons.prems p by simp
    then show ?thesis using Cons.IH [of bk bc] False p by auto
  qed
qed

lemma best_crop_max:
  assumes "xs \<noteq> []" "\<forall>p\<in>set xs. 0 < snd p"
  shows "\<exists>c. (best_crop xs, c) \<in> set xs \<and> (\<forall>p\<in>set xs. snd p \<le> c)"
proof -
  obtain rk rc where r: "fold best_step xs ('''', 0) = (rk, rc)" by (cases "fold best_step xs ('''', 0)") blast
  note m = fold_best_max [OF r]
  have "(rk, rc) \<in> set xs"
  proof (rule ccontr)
    assume "(rk, rc) \<notin> set xs"
    then have "(rk, rc) = ('''', 0)" using m by blast
    then have rc: "rc = 0" by simp
    obtain p where p: "p \<in> set xs" using assms(1) by (cases xs) auto
    then have "snd p \<le> rc" using m by blast
    moreover have "0 < snd p" using assms(2) p by blast
    ultimately show False using rc by simp
  qed
  moreover have "best_crop xs = rk" by (simp add: best_crop_def r)
  ultimately show ?thesis using m by blast
qed

lemma best_crop_first: "\<forall>p\<in>set xs. snd p \<le> c \<Longrightarrow> 0 < c \<Longrightarrow> best_crop ((k, c) # xs) = k"
  by (simp add: best_crop_def fold_best_keep)

lemma count_list_pos: "x \<in> set xs \<Longrightarrow> 0 < count_list xs x"
  by (induction xs) auto

lemma sample_crop_counts:
  "List.map_filter line_crop (scan_lines txt) = ks \<Longrightarrow> ks \<noteq> [] \<Longrightarrow>
   sample_crop ord (Some txt) = best_crop (ord (count_map ks))"
  by (simp add: sample_crop_def sample_counts_def count_map_Nil)

text \<open>C22. The aggregate decision of \<open>DetectCrop\<close> does not depend on the order in which
  Go iterates the count map nor on which of several equal counts \<open>sort.Slice\<close> puts first:
  any two such orders give the same result, message included.\<close>
theorem decide_crop_order_independent:
  assumes "\<forall>xs. mset (o1 xs) = mset xs" "\<forall>xs. mset (o2 xs) = mset xs"
  shows "decide_crop w h samples o1 = decide_crop w h samples o2"
  using decide_crop_canon_eq [OF assms(1)] decide_crop_canon_eq [OF assms(2)] by simp

theorem decide_crop_order_independent_witness: "decide_crop 1920 1080 ex_samples id = decide_crop 1920 1080 ex_samples rev"
  using decide_crop_order_independent [of id rev] by simp

text \<open>C21. The crop chosen by \<open>DetectCrop\<close> from the sample results is the one the rule of
  section 4.4 of the spec chooses from the multiset of rectangles: none for no rectangle,
  the only rectangle unless it is the source, otherwise the rectangle whose share exceeds
  0.80 unless it is the source.\<close>
theorem decide_crop_refines_spec:
  assumes "\<forall>xs. mset (ord xs) = mset xs"
  shows "crop_choice (decide_crop w h samples ord) = spec_crop (filter (\<lambda>c. c \<noteq> '''') samples) w h"
  using decide_crop_canon_eq [OF assms] decide_canon_refines by simp

theorem decide_crop_refines_spec_witness: "crop_choice (decide_crop 1920 1080 ex_samples rev)
   = spec_crop (filter (\<lambda>c. c \<noteq> '''') ex_samples) 1920 1080"
  using decide_crop_refines_spec [of rev] by simp

text \<open>C23. A \<open>cropdetect\<close> line whose prefix has no \<open>=\<close> parses back to the rectangle it
  prints; the rectangle passes \<open>isValidCropFormat\<close>, and \<open>GetOutputDimensions\<close> of the
  filter \<open>DetectCrop\<close> builds from it is its width and height.\<close>
theorem crop_line_roundtrip:
  assumes "CHR ''='' \<notin> set pre" "takeWhile dec_digit post = []"
    and "w < 2 ^ 32" "h < 2 ^ 32" "x < 2 ^ 32" "y < 2 ^ 32"
  shows "find_crop (pre @ ''crop='' @ crop_str w h x y @ post) = Some (crop_str w h x y)
       \<and> is_valid_crop_format (crop_str w h x y)
       \<and> get_output_dimensions w0 h0 (cr_filter (crop_to (crop_str w h x y))) = (of_nat w, of_nat h)"
  using find_crop_line [OF assms(1,2)] valid_crop_str [OF assms(3-6)] output_dims_crop_str [OF assms(3,4)]
  by (simp add: crop_to_def)

theorem crop_line_roundtrip_witness: "find_crop (''[Parsed_cropdetect_0 @ 0x55] w:1920 h:800 '' @ ''crop='' @ crop_str 1920 800 0 140 @ '''')
      = Some (crop_str 1920 800 0 140)
   \<and> is_valid_crop_format (crop_str 1920 800 0 140)
   \<and> get_output_dimensions 1920 1080 (cr_filter (crop_to (crop_str 1920 800 0 140))) = (1920, 800)"
  using crop_line_roundtrip [of "''[Parsed_cropdetect_0 @ 0x55] w:1920 h:800 ''" "''''" 1920 800 0 140 1920 1080]
  by simp

text \<open>C24. When every sample reports the same rectangle and it differs from the source
  dimensions, \<open>DetectCrop\<close> (all 141 samples, any per-sample map order) crops to it.\<close>
theorem detect_crop_letterbox:
  assumes "\<forall>i xs. mset (ord_s i xs) = mset xs"
    and "\<forall>t i. det t i = Some (pre @ ''crop='' @ crop_str cw ch x y)"
    and "CHR ''='' \<notin> set pre" "CHR ''\<newline>'' \<notin> set pre"
    and "cw < 2 ^ 32" "ch < 2 ^ 32" "x < 2 ^ 32" "y < 2 ^ 32"
    and "(of_nat cw, of_nat ch) \<noteq> (w, h)"
  shows "detect_crop False hdr w h det ord_s ord = crop_to (crop_str cw ch x y)"
  using detect_crop_uniform [OF assms(1-8)] effective_crop_str [OF assms(5,6)] assms(9)
  by (simp add: effective_or_none_def)

theorem detect_crop_letterbox_witness: "detect_crop False False 1920 1080 (\<lambda>t i. Some (''x '' @ ''crop='' @ crop_str 1920 800 0 140))
     (\<lambda>i. id) id = crop_to (crop_str 1920 800 0 140)"
  using detect_crop_letterbox [of "\<lambda>i. id" "\<lambda>t i. Some (''x '' @ ''crop='' @ crop_str 1920 800 0 140)"
     "''x ''" 1920 800 0 140 "1920 :: u32" 1080 False id] by simp

text \<open>C25. Within one sample, \<open>sampleCropAtPosition\<close> returns a most frequent valid
  rectangle of the detector's output whatever the order in which Go iterates the count map,
  and every most frequent rectangle is returned under some iteration order: when two
  rectangles tie, which one the sample reports depends on the randomised map order.\<close>

theorem sample_crop_tie:
  assumes ks: "List.map_filter line_crop (scan_lines txt) = ks" "ks \<noteq> []"
  shows "(\<forall>ord. (\<forall>xs. mset (ord xs) = mset xs) \<longrightarrow>
            sample_crop ord (Some txt) \<in> set ks
            \<and> (\<forall>k' \<in> set ks. count_list ks k' \<le> count_list ks (sample_crop ord (Some txt))))
       \<and> (\<forall>k \<in> set ks. (\<forall>k' \<in> set ks. count_list ks k' \<le> count_list ks k) \<longrightarrow>
            (\<exists>ord. (\<forall>xs. mset (ord xs) = mset xs) \<and> sample_crop ord (Some txt) = k))"
proof (intro conjI allI impI ballI)
  fix ord :: "(string \<times> nat) list \<Rightarrow> (string \<times> nat) list"
  assume o: "\<forall>xs. mset (ord xs) = mset xs"
  have set_o: "set (ord (count_map ks)) = set (count_map ks)" using o by (metis set_mset_mset)
  have "ord (count_map ks) \<noteq> []" using set_o ks(2) count_map_Nil [of ks] by auto
  moreover have "\<forall>p\<in>set (ord (count_map ks)). 0 < snd p"
    using set_o by (auto simp: count_map_in count_list_pos)
  ultimately have "\<exists>c. (best_crop (ord (count_map ks)), c) \<in> set (ord (count_map ks))
                        \<and> (\<forall>p\<in>set (ord (count_map ks)). snd p \<le> c)"
    by (rule best_crop_max)
  then obtain c where c: "(best_crop (ord (count_map ks)), c) \<in> set (count_map ks)"
      "\<forall>p\<in>set (count_map ks). snd p \<le> c"
    unfolding set_o by blast
  have r: "sample_crop ord (Some txt) = best_crop (ord (count_map ks))" using sample_crop_counts [OF ks] .
  show "sample_crop ord (Some txt) \<in> set ks" using c(1) r by (simp add: count_map_in)
  fix k' assume "k' \<in> set ks"
  then have "(k', count_list ks k') \<in> set (count_map ks)" by (simp add: count_map_in)
  then show "count_list ks k' \<le> count_list ks (sample_crop ord (Some txt))"
    using c r by (fastforce simp: count_map_in)
next
  fix k assume k: "k \<in> set ks" and mx: "\<forall>k' \<in> set ks. count_list ks k' \<le> count_list ks k"
  define p where "p = (k, count_list ks k)"
  define ord where "ord = (\<lambda>xs :: (string \<times> nat) list. if p \<in> set xs then p # remove1 p xs else xs)"
  have o: "\<forall>xs. mset (ord xs) = mset xs"
  proof
    fix xs :: "(string \<times> nat) list"
    show "mset (ord xs) = mset xs"
    proof (cases "p \<in> set xs")
      case True
      then have "mset (p # remove1 p xs) = mset xs" by simp
      then show ?thesis using True by (simp add: ord_def)
    qed (simp add: ord_def)
  qed
  have pin: "p \<in> set (count_map ks)" using k by (simp add: p_def count_map_in)
  have "\<forall>q\<in>set (remove1 p (count_map ks)). snd q \<le> count_list ks k"
  proof
    fix q assume "q \<in> set (remove1 p (count_map ks))"
    then have "q \<in> set (count_map ks)" by (rule set_remove1_subset [THEN subsetD])
    then show "snd q \<le> count_list ks k" using mx by (metis count_map_in prod.collapse)
  qed
  moreover have "0 < count_list ks k" using k by (rule count_list_pos)
  ultimately have "best_crop (ord (count_map ks)) = k"
    using pin best_crop_first [of "remove1 p (count_map ks)" "count_list ks k" k] unfolding ord_def p_def by simp
  then show "\<exists>ord. (\<forall>xs. mset (ord xs) = mset xs) \<and> sample_crop ord (Some txt) = k"
    using o sample_crop_counts [OF ks] by blast
qed

theorem sample_crop_tie_witness:
  "(\<exists>o1. (\<forall>xs. mset (o1 xs) = mset xs) \<and> sample_crop o1 (Some tie_out) = ''1920:800:0:140'')
   \<and> (\<exists>o2. (\<forall>xs. mset (o2 xs) = mset xs) \<and> sample_crop o2 (Some tie_out) = ''1920:1040:0:20'')"
  using sample_crop_tie [OF tie_lines] by simp

end
