(* ===== verification/Config.thy ===== *)
theory Config
  imports Complex_Main Reel_Prelude
begin

text \<open>
  The configuration package, \<open>src/unnamed/part_003\<close> (package \<open>config\<close>): the default
  constants, \<open>AutoParallelConfig\<close>, the \<open>Config\<close> struct, \<open>NewConfig\<close>, \<open>Validate\<close>,
  \<open>GetTempDir\<close>, \<open>CRFForWidth\<close> and \<open>ChunkDurationForWidth\<close>.  Go's \<open>uint8\<close> fields are
  8-bit words; \<open>float64\<close> and \<open>float32\<close> fields are reals: the comparisons of
  \<open>Validate\<close> are exact on the values a configuration is built from (no NaN is produced
  by \<open>NewConfig\<close> or by the command line, which does not set the chunk durations).
\<close>

type_synonym u8 = "8 word"

subsection \<open>Constants and the Config struct\<close>

definition default_crf_sd :: u8 where "default_crf_sd = 25"
definition default_crf_hd :: u8 where "default_crf_hd = 27"
definition default_crf_uhd :: u8 where "default_crf_uhd = 29"
definition hd_width_threshold :: u32 where "hd_width_threshold = 1920"
definition uhd_width_threshold :: u32 where "uhd_width_threshold = 3840"

text \<open>\<open>AutoParallelConfig()\<close>: 24 workers, a prefetch buffer of 4.\<close>

definition auto_parallel_config :: "int \<times> int" where
  "auto_parallel_config = (24, 4)"

record config =
  cfg_input_dir :: string
  cfg_output_dir :: string
  cfg_log_dir :: string
  cfg_temp_dir :: string
  cfg_preset :: u8
  cfg_tune :: u8
  cfg_ac_bias :: real
  cfg_variance_boost :: bool
  cfg_vb_strength :: u8
  cfg_vb_octile :: u8
  cfg_crf_sd :: u8
  cfg_crf_hd :: u8
  cfg_crf_uhd :: u8
  cfg_crop_mode :: string
  cfg_cooldown :: u64
  cfg_workers :: int
  cfg_chunk_buffer :: int
  cfg_threads :: int
  cfg_dur_sd :: real
  cfg_dur_hd :: real
  cfg_dur_uhd :: real
  cfg_verbose :: bool

text \<open>\<open>NewConfig(inputDir, outputDir, logDir)\<close>; the unset fields keep Go's zero values.\<close>

definition new_config :: "string \<Rightarrow> string \<Rightarrow> string \<Rightarrow> config" where
  "new_config inp outp logd =
     (let (workers, buffer) = auto_parallel_config in
      \<lparr>cfg_input_dir = inp, cfg_output_dir = outp, cfg_log_dir = logd, cfg_temp_dir = '''',
       cfg_preset = 6, cfg_tune = 0, cfg_ac_bias = 1 / 10, cfg_variance_boost = False,
       cfg_vb_strength = 0, cfg_vb_octile = 0,
       cfg_crf_sd = default_crf_sd, cfg_crf_hd = default_crf_hd, cfg_crf_uhd = default_crf_uhd,
       cfg_crop_mode = ''auto'', cfg_cooldown = 3,
       cfg_workers = workers, cfg_chunk_buffer = buffer, cfg_threads = 0,
       cfg_dur_sd = 20, cfg_dur_hd = 30, cfg_dur_uhd = 45, cfg_verbose = False\<rparr>)"

subsection \<open>Validate\<close>

text \<open>The errors of \<open>Validate\<close>, with the offending value (the \<open>%d\<close> and \<open>%g\<close> of the
  messages).\<close>

datatype config_error =
    PresetRange u8
  | CrfRange string u8
  | WorkersRange int
  | BufferRange int
  | DurationRange string real

text \<open>The loop over the three chunk durations: the first one outside \<open>[1, 120]\<close>.\<close>

fun check_durations :: "(string \<times> real) list \<Rightarrow> config_error option" where
  "check_durations [] = None"
| "check_durations ((n, v) # rest) =
     (if v < 1 \<or> v > 120 then Some (DurationRange n v) else check_durations rest)"

definition validate_config :: "config \<Rightarrow> config_error option" where
  "validate_config c =
     (if cfg_preset c > 13 then Some (PresetRange (cfg_preset c))
      else if cfg_crf_sd c > 63 then Some (CrfRange ''crf-sd'' (cfg_crf_sd c))
      else if cfg_crf_hd c > 63 then Some (CrfRange ''crf-hd'' (cfg_crf_hd c))
      else if cfg_crf_uhd c > 63 then Some (CrfRange ''crf-uhd'' (cfg_crf_uhd c))
      else if cfg_workers c < 1 then Some (WorkersRange (cfg_workers c))
      else if cfg_chunk_buffer c < 0 then Some (BufferRange (cfg_chunk_buffer c))
      else check_durations [(''chunk_duration_sd'', cfg_dur_sd c), (''chunk_duration_hd'', cfg_dur_hd c),
                            (''chunk_duration_uhd'', cfg_dur_uhd c)])"

subsection \<open>Derived settings\<close>

definition get_temp_dir :: "config \<Rightarrow> string" where
  "get_temp_dir c = (if cfg_temp_dir c \<noteq> '''' then cfg_temp_dir c else cfg_output_dir c)"

definition crf_for_width :: "config \<Rightarrow> u32 \<Rightarrow> u8" where
  "crf_for_width c w =
     (if w \<ge> uhd_width_threshold then cfg_crf_uhd c
      else if w \<ge> hd_width_threshold then cfg_crf_hd c else cfg_crf_sd c)"

definition chunk_duration_for_width :: "config \<Rightarrow> u32 \<Rightarrow> real" where
  "chunk_duration_for_width c w =
     (if w \<ge> uhd_width_threshold then cfg_dur_uhd c
      else if w \<ge> hd_width_threshold then cfg_dur_hd c else cfg_dur_sd c)"

subsection \<open>Lemmas\<close>

lemma check_durations_None:
  "check_durations ds = None \<longleftrightarrow> (\<forall>(n, v) \<in> set ds. 1 \<le> v \<and> v \<le> 120)"
  by (induction ds rule: check_durations.induct) auto

lemma validate_config_None:
  "validate_config c = None \<longleftrightarrow>
     cfg_preset c \<le> 13 \<and> cfg_crf_sd c \<le> 63 \<and> cfg_crf_hd c \<le> 63 \<and> cfg_crf_uhd c \<le> 63
     \<and> 1 \<le> cfg_workers c \<and> 0 \<le> cfg_chunk_buffer c
     \<and> 1 \<le> cfg_dur_sd c \<and> cfg_dur_sd c \<le> 120 \<and> 1 \<le> cfg_dur_hd c \<and> cfg_dur_hd c \<le> 120
     \<and> 1 \<le> cfg_dur_uhd c \<and> cfg_dur_uhd c \<le> 120"
  by (auto simp: validate_config_def check_durations_None not_less)

lemma width_tiers:
  "w \<ge> uhd_width_threshold \<longleftrightarrow> 3840 \<le> unat w"
  "w \<ge> hd_width_threshold \<longleftrightarrow> 1920 \<le> unat w"
  by (simp_all add: uhd_width_threshold_def hd_width_threshold_def word_le_nat_alt)


subsection \<open>Properties\<close>

text \<open>C33. A configuration that passes \<open>Validate\<close> yields, for every source width, a CRF
  in \<open>0..63\<close> and a chunk duration in \<open>[1, 120]\<close> seconds, with a preset in \<open>0..13\<close>, at
  least one worker and a non-negative buffer: the ranges the encoder and the planner rely on.\<close>

theorem validated_config_bounds:
  assumes "validate_config c = None"
  shows "crf_for_width c w \<le> 63 \<and> 1 \<le> chunk_duration_for_width c w \<and> chunk_duration_for_width c w \<le> 120
         \<and> cfg_preset c \<le> 13 \<and> 1 \<le> cfg_workers c \<and> 0 \<le> cfg_chunk_buffer c"
  using assms unfolding validate_config_None
  by (auto simp: crf_for_width_def chunk_duration_for_width_def)

theorem validated_config_bounds_witness:
  "crf_for_width (new_config [] [] []) 1920 \<le> 63 \<and> 1 \<le> chunk_duration_for_width (new_config [] [] []) 1920
   \<and> chunk_duration_for_width (new_config [] [] []) 1920 \<le> 120 \<and> cfg_preset (new_config [] [] []) \<le> 13
   \<and> 1 \<le> cfg_workers (new_config [] [] []) \<and> 0 \<le> cfg_chunk_buffer (new_config [] [] [])"
  using validated_config_bounds [of "new_config [] [] []" 1920]
  by (simp add: validate_config_def new_config_def auto_parallel_config_def default_crf_sd_def
      default_crf_hd_def default_crf_uhd_def)

text \<open>\<open>NewConfig\<close> passes \<open>Validate\<close> and carries the defaults of section 6 of the
  spec: CRF 25/27/29 and chunk durations 20/30/45 s for widths below 1920, below 3840 and
  from 3840 on, preset 6 and tune 0.\<close>

theorem new_config_defaults:
  "validate_config (new_config inp outp logd) = None
   \<and> unat (crf_for_width (new_config inp outp logd) w) = (if 3840 \<le> unat w then 29 else if 1920 \<le> unat w then 27 else 25)
   \<and> chunk_duration_for_width (new_config inp outp logd) w = (if 3840 \<le> unat w then 45 else if 1920 \<le> unat w then 30 else 20)
   \<and> cfg_preset (new_config inp outp logd) = 6 \<and> cfg_tune (new_config inp outp logd) = 0"
  by (simp add: validate_config_def new_config_def auto_parallel_config_def default_crf_sd_def
      default_crf_hd_def default_crf_uhd_def crf_for_width_def chunk_duration_for_width_def width_tiers)

end
