(* ===== verification/Validator.thy ===== *)
theory Validator
  imports Config
begin

text \<open>
  The post-encode validator, \<open>src/unnamed/part_000\<close> (package \<open>validation\<close>):
  \<open>ValidateOutputVideo\<close> and its checks \<open>validateVideoCodec\<close>, \<open>validateBitDepth\<close>,
  \<open>validateDimensions\<close>, \<open>validateDuration\<close>, \<open>validateAudio\<close>, \<open>validateSync\<close>, and the
  HDR check \<open>validateHDRStatusWithAvailabilityCheck\<close> / \<open>validateHDRResult\<close>.  The probes
  of the output file (ffprobe, MediaInfo) are a record of their outcomes; a probe called
  twice on the same file gives the same outcome.  Durations are reals.  The messages that
  print floats with \<open>%.1f\<close> are kept as values of \<open>fmsg\<close> carrying the numbers printed.
  The \<open>Result\<close> struct and its \<open>IsValid\<close> are not in the sources: they are modelled from
  section 4.9 of the spec (the verdict is the conjunction of the checks).
\<close>

subsection \<open>Strings\<close>

text \<open>\<open>strings.ToLower\<close> on ASCII text.\<close>

definition ascii_lower :: "char \<Rightarrow> char" where
  "ascii_lower c = (if (65::nat) \<le> of_char c \<and> of_char c \<le> (90::nat) then char_of (of_char c + (32::nat)) else c)"

definition to_lower :: "string \<Rightarrow> string" where
  "to_lower s = map ascii_lower s"

text \<open>\<open>strings.Contains(s, sub)\<close>.\<close>

fun str_contains :: "string \<Rightarrow> string \<Rightarrow> bool" where
  "str_contains sub [] = (sub = [])"
| "str_contains sub (c # cs) = (take (length sub) (c # cs) = sub \<or> str_contains sub cs)"

text \<open>\<open>strings.Join(xs, sep)\<close>.\<close>

fun str_join :: "string \<Rightarrow> string list \<Rightarrow> string" where
  "str_join sep [] = []"
| "str_join sep [x] = x"
| "str_join sep (x # y # xs) = x @ sep @ str_join sep (y # xs)"

definition fmt_u32 :: "u32 \<Rightarrow> string" where
  "fmt_u32 w = nat_digits (unat w)"

subsection \<open>Probes and options\<close>

record video_props =
  vp_width :: u32
  vp_height :: u32
  vp_duration :: real
  vp_bit_depth :: "u8 option"

record mediainfo =
  mi_is_hdr :: bool
  mi_bit_depth :: "u8 option"

text \<open>\<open>ffprobe.GetVideoProperties\<close>, the width of \<open>ffprobe.GetMediaInfo\<close>,
  \<open>ffprobe.GetVideoCodecName\<close>, \<open>mediainfo.IsAvailable\<close>, \<open>mediainfo.GetMediaInfo\<close>
  with \<open>DetectHDR\<close>, and the codec names of \<open>ffprobe.GetAudioStreamInfo\<close>.\<close>

record probes =
  pr_props :: "video_props option"
  pr_ff_width :: "u32 option"
  pr_codec :: "string option"
  pr_mi_available :: bool
  pr_mi :: "mediainfo option"
  pr_audio :: "string list option"

record val_options =
  opt_dims :: "(u32 \<times> u32) option"
  opt_duration :: "real option"
  opt_hdr :: "bool option"
  opt_tracks :: "int option"

subsection \<open>The checks\<close>

definition validate_video_codec :: "probes \<Rightarrow> bool \<times> string" where
  "validate_video_codec pr =
     (case pr_ff_width pr of
        None \<Rightarrow> (False, '''')
      | Some w \<Rightarrow>
          (let codec = (if 0 < w then (case pr_codec pr of Some c \<Rightarrow> c | None \<Rightarrow> '''') else '''')
           in (str_contains ''av1'' (to_lower codec) \<or> str_contains ''av01'' (to_lower codec), codec)))"

text \<open>The ffprobe fallback of \<open>validateBitDepth\<close>: a reported depth, else the AV1
  default of 10 bits.\<close>

definition bit_depth_fallback :: "probes \<Rightarrow> bool \<times> u8 option \<times> string" where
  "bit_depth_fallback pr =
     (case pr_props pr of
        None \<Rightarrow> (False, None, [])
      | Some p \<Rightarrow> (case vp_bit_depth p of
                     Some d \<Rightarrow> (10 \<le> d, Some d, [])
                   | None \<Rightarrow> (True, Some 10, ''yuv420p10le'')))"

definition validate_bit_depth :: "probes \<Rightarrow> bool \<times> u8 option \<times> string" where
  "validate_bit_depth pr =
     (case pr_mi pr of
        Some mi \<Rightarrow> (case mi_bit_depth mi of
                      Some d \<Rightarrow> (10 \<le> d, Some d, [])
                    | None \<Rightarrow> bit_depth_fallback pr)
      | None \<Rightarrow> bit_depth_fallback pr)"

definition validate_dimensions :: "u32 \<Rightarrow> u32 \<Rightarrow> u32 \<Rightarrow> u32 \<Rightarrow> bool \<times> string" where
  "validate_dimensions aw ah ew eh =
     (if aw = ew \<and> ah = eh then (True, ''Dimensions match: '' @ fmt_u32 aw @ ''x'' @ fmt_u32 ah)
      else (False, ''Dimension mismatch: got '' @ fmt_u32 aw @ ''x'' @ fmt_u32 ah @ '', expected ''
                   @ fmt_u32 ew @ ''x'' @ fmt_u32 eh))"

text \<open>The messages printing floats, with the values they print.\<close>

datatype fmsg =
    FText string
  | DurationMatches real
  | DurationMismatch real real real
  | SyncPreserved real
  | SyncDrift real real

definition duration_tolerance :: real where "duration_tolerance = 1"
definition max_sync_drift_ms :: real where "max_sync_drift_ms = 100"

definition validate_duration :: "real \<Rightarrow> real \<Rightarrow> bool \<times> fmsg" where
  "validate_duration actual expected =
     (let diff = \<bar>actual - expected\<bar> in
      if diff \<le> duration_tolerance then (True, DurationMatches actual)
      else (False, DurationMismatch actual expected diff))"

definition audio_message :: "string list \<Rightarrow> bool \<Rightarrow> string" where
  "audio_message codecs is_opus =
     (if codecs = [] then ''No audio tracks''
      else if length codecs = 1 then
        (if is_opus then ''Audio track is Opus'' else ''Audio track is '' @ hd codecs @ '' (expected Opus)'')
      else if is_opus then fmt_int (int (length codecs)) @ '' audio tracks, all Opus''
      else fmt_int (int (length codecs)) @ '' audio tracks: '' @ str_join '', '' codecs)"

definition validate_audio :: "string list \<Rightarrow> int option \<Rightarrow> bool \<times> bool \<times> string list \<times> string" where
  "validate_audio streams expected =
     (let codecs = map to_lower streams;
          is_opus = list_all (\<lambda>c. c = ''opus'') codecs;
          count_ok = (case expected of None \<Rightarrow> True | Some n \<Rightarrow> int (length streams) = n)
      in (is_opus, count_ok, codecs, audio_message codecs is_opus))"

definition validate_sync :: "real \<Rightarrow> real \<Rightarrow> bool \<times> real \<times> fmsg" where
  "validate_sync out_dur in_dur =
     (let drift = \<bar>out_dur - in_dur\<bar> * 1000;
          ok = drift \<le> max_sync_drift_ms
      in (ok, drift, if ok then SyncPreserved drift else SyncDrift drift max_sync_drift_ms))"

subsection \<open>HDR\<close>

record hdr_validation =
  hv_valid :: bool
  hv_actual :: "bool option"
  hv_message :: string
  hv_mi_used :: bool

definition hdr_str :: "bool \<Rightarrow> string" where
  "hdr_str b = (if b then ''HDR'' else ''SDR'')"

definition validate_hdr_result :: "bool option \<Rightarrow> bool option \<Rightarrow> hdr_validation" where
  "validate_hdr_result expected actual =
     (case (expected, actual) of
        (Some e, Some a) \<Rightarrow>
          if e = a then \<lparr>hv_valid = True, hv_actual = Some a, hv_message = hdr_str a @ '' preserved'', hv_mi_used = True\<rparr>
          else \<lparr>hv_valid = False, hv_actual = Some a,
                hv_message = ''Expected '' @ hdr_str e @ '', found '' @ hdr_str a, hv_mi_used = True\<rparr>
      | (None, Some a) \<Rightarrow> \<lparr>hv_valid = True, hv_actual = Some a, hv_message = ''Output is '' @ hdr_str a, hv_mi_used = True\<rparr>
      | (Some e, None) \<Rightarrow>
          \<lparr>hv_valid = False, hv_actual = None,
           hv_message = ''Expected '' @ hdr_str e @ '', but could not detect HDR status'', hv_mi_used = True\<rparr>
      | (None, None) \<Rightarrow> \<lparr>hv_valid = False, hv_actual = None, hv_message = ''Could not detect HDR status'', hv_mi_used = True\<rparr>)"

definition validate_hdr_status :: "probes \<Rightarrow> bool option \<Rightarrow> hdr_validation" where
  "validate_hdr_status pr expected =
     (if \<not> pr_mi_available pr then
        \<lparr>hv_valid = True, hv_actual = None, hv_message = ''MediaInfo not installed - HDR validation skipped'',
         hv_mi_used = False\<rparr>
      else validate_hdr_result expected (map_option mi_is_hdr (pr_mi pr)))"

subsection \<open>ValidateOutputVideo\<close>

record val_result =
  vr_av1 :: bool
  vr_codec :: string
  vr_10bit :: bool
  vr_depth :: "u8 option"
  vr_pixfmt :: string
  vr_actual_dims :: "(u32 \<times> u32) option"
  vr_expected_dims :: "(u32 \<times> u32) option"
  vr_crop_ok :: bool
  vr_crop_msg :: string
  vr_actual_dur :: "real option"
  vr_expected_dur :: "real option"
  vr_dur_ok :: bool
  vr_dur_msg :: fmsg
  vr_hdr_ok :: bool
  vr_actual_hdr :: "bool option"
  vr_expected_hdr :: "bool option"
  vr_hdr_msg :: string
  vr_opus :: bool
  vr_tracks_ok :: bool
  vr_codecs :: "string list"
  vr_audio_msg :: string
  vr_sync_ok :: bool
  vr_drift :: "real option"
  vr_sync_msg :: fmsg

datatype val_error = PropsFailed | MediaInfoFailed

text \<open>Lines 55--108, from the initial \<open>Result\<close> (all flags true, messages empty) and
  the output's properties.\<close>

definition validate_checks :: "probes \<Rightarrow> val_options \<Rightarrow> video_props \<Rightarrow> val_result" where
  "validate_checks pr opts props =
     (let (av1, codec) = validate_video_codec pr;
          (b10, depth, pixfmt) = validate_bit_depth pr;
          r0 = \<lparr>vr_av1 = av1, vr_codec = codec, vr_10bit = b10, vr_depth = depth, vr_pixfmt = pixfmt,
                vr_actual_dims = None, vr_expected_dims = None, vr_crop_ok = True, vr_crop_msg = [],
                vr_actual_dur = None, vr_expected_dur = None, vr_dur_ok = True, vr_dur_msg = FText [],
                vr_hdr_ok = True, vr_actual_hdr = None, vr_expected_hdr = None, vr_hdr_msg = [],
                vr_opus = True, vr_tracks_ok = True, vr_codecs = [], vr_audio_msg = [],
                vr_sync_ok = True, vr_drift = None, vr_sync_msg = FText []\<rparr>;
          r1 = (case opt_dims opts of
                  Some (ew, eh) \<Rightarrow>
                    (let (ok, msg) = validate_dimensions (vp_width props) (vp_height props) ew eh in
                     r0\<lparr>vr_actual_dims := Some (vp_width props, vp_height props), vr_expected_dims := Some (ew, eh),
                        vr_crop_ok := ok, vr_crop_msg := msg\<rparr>)
                | None \<Rightarrow> r0\<lparr>vr_crop_msg := ''No crop validation required''\<rparr>);
          r2 = (case opt_duration opts of
                  Some e \<Rightarrow>
                    (let (ok, msg) = validate_duration (vp_duration props) e in
                     r1\<lparr>vr_actual_dur := Some (vp_duration props), vr_expected_dur := Some e,
                        vr_dur_ok := ok, vr_dur_msg := msg\<rparr>)
                | None \<Rightarrow> r1\<lparr>vr_dur_msg := FText ''Duration validation skipped''\<rparr>);
          hv = validate_hdr_status pr (opt_hdr opts);
          r3 = (case opt_hdr opts of
                  Some e \<Rightarrow> r2\<lparr>vr_hdr_ok := hv_valid hv, vr_actual_hdr := hv_actual hv, vr_expected_hdr := Some e,
                               vr_hdr_msg := hv_message hv\<rparr>
                | None \<Rightarrow> r2\<lparr>vr_hdr_ok := True, vr_actual_hdr := hv_actual hv, vr_hdr_msg := hv_message hv\<rparr>);
          r4 = (case pr_audio pr of
                  None \<Rightarrow> r3\<lparr>vr_audio_msg := ''Failed to get audio info''\<rparr>
                | Some streams \<Rightarrow>
                    (let (op, tc, cs, msg) = validate_audio streams (opt_tracks opts) in
                     r3\<lparr>vr_opus := op, vr_tracks_ok := tc, vr_codecs := cs, vr_audio_msg := msg\<rparr>))
      in case opt_duration opts of
           Some e \<Rightarrow> (let (ok, drift, msg) = validate_sync (vp_duration props) e in
                      r4\<lparr>vr_sync_ok := ok, vr_drift := Some drift, vr_sync_msg := msg\<rparr>)
         | None \<Rightarrow> r4\<lparr>vr_sync_msg := FText ''Sync validation skipped''\<rparr>)"

definition validate_output_video :: "probes \<Rightarrow> val_options \<Rightarrow> val_error + val_result" where
  "validate_output_video pr opts =
     (case pr_props pr of
        None \<Rightarrow> Inl PropsFailed
      | Some props \<Rightarrow> (case pr_ff_width pr of
                         None \<Rightarrow> Inl MediaInfoFailed
                       | Some _ \<Rightarrow> Inr (validate_checks pr opts props)))"

text \<open>\<open>Result.IsValid\<close> (not in the sources; spec section 4.9): every check passes.\<close>

definition is_valid :: "val_result \<Rightarrow> bool" where
  "is_valid r \<longleftrightarrow> vr_av1 r \<and> vr_10bit r \<and> vr_crop_ok r \<and> vr_dur_ok r \<and> vr_hdr_ok r
                 \<and> vr_opus r \<and> vr_tracks_ok r \<and> vr_sync_ok r"


text \<open>The options \<open>ProcessVideos\<close> passes: every expectation set.\<close>

definition full_options :: "u32 \<Rightarrow> u32 \<Rightarrow> real \<Rightarrow> bool \<Rightarrow> int \<Rightarrow> val_options" where
  "full_options ew eh e h n = \<lparr>opt_dims = Some (ew, eh), opt_duration = Some e, opt_hdr = Some h, opt_tracks = Some n\<rparr>"

subsection \<open>The checks of the spec\<close>

text \<open>Section 4.9 with every expectation given: the codec contains \<open>av1\<close>; the bit depth
  reported (MediaInfo's, else ffprobe's) is at least 10, or unknown; the dimensions and the
  duration (within 1 s) match; the HDR classification matches unless MediaInfo is not
  installed; every audio track is Opus and their number is the expected one; the drift
  is at most 100 ms.\<close>

definition spec_validation :: "probes \<Rightarrow> u32 \<Rightarrow> u32 \<Rightarrow> real \<Rightarrow> bool \<Rightarrow> int \<Rightarrow> bool" where
  "spec_validation pr ew eh e h n =
     (case pr_props pr of
        None \<Rightarrow> False
      | Some p \<Rightarrow>
          str_contains ''av1'' (to_lower (case pr_codec pr of Some c \<Rightarrow> c | None \<Rightarrow> []))
          \<and> (case (case pr_mi pr of Some mi \<Rightarrow> (case mi_bit_depth mi of Some d \<Rightarrow> Some d | None \<Rightarrow> vp_bit_depth p)
                                 | None \<Rightarrow> vp_bit_depth p) of
               Some d \<Rightarrow> 10 \<le> d | None \<Rightarrow> True)
          \<and> (vp_width p, vp_height p) = (ew, eh)
          \<and> \<bar>vp_duration p - e\<bar> \<le> 1
          \<and> (pr_mi_available pr \<longrightarrow> map_option mi_is_hdr (pr_mi pr) = Some h)
          \<and> (case pr_audio pr of
               Some cs \<Rightarrow> list_all (\<lambda>c. to_lower c = ''opus'') cs \<and> int (length cs) = n
             | None \<Rightarrow> False)
          \<and> \<bar>vp_duration p - e\<bar> * 1000 \<le> 100)"


text \<open>A probe of a correct 1920x800 SDR output with two Opus tracks.\<close>

definition ex_probe :: probes where
  "ex_probe = \<lparr>pr_props = Some \<lparr>vp_width = 1920, vp_height = 800, vp_duration = 30, vp_bit_depth = Some 10\<rparr>,
               pr_ff_width = Some 1920, pr_codec = Some ''av1'', pr_mi_available = True,
               pr_mi = Some \<lparr>mi_is_hdr = False, mi_bit_depth = Some 10\<rparr>, pr_audio = Some [''opus'', ''opus'']\<rparr>"

subsection \<open>Lemmas\<close>

lemma validate_output_video_Inr:
  assumes "pr_props pr = Some p" "pr_ff_width pr = Some w"
  shows "validate_output_video pr opts = Inr (validate_checks pr opts p)"
  using assms by (simp add: validate_output_video_def)

lemma validate_checks_full:
  "is_valid (validate_checks pr (full_options ew eh e h n) p) \<longleftrightarrow>
     fst (validate_video_codec pr) \<and> fst (validate_bit_depth pr)
     \<and> fst (validate_dimensions (vp_width p) (vp_height p) ew eh)
     \<and> fst (validate_duration (vp_duration p) e) \<and> hv_valid (validate_hdr_status pr (Some h))
     \<and> (case pr_audio pr of None \<Rightarrow> True | Some cs \<Rightarrow> fst (validate_audio cs (Some n)) \<and> fst (snd (validate_audio cs (Some n))))
     \<and> fst (validate_sync (vp_duration p) e)"
  by (simp add: validate_checks_def full_options_def is_valid_def Let_def split: prod.splits option.splits)


lemma bit_depth_spec:
  "pr_props pr = Some p \<Longrightarrow> fst (validate_bit_depth pr) =
     (case (case pr_mi pr of Some mi \<Rightarrow> (case mi_bit_depth mi of Some d \<Rightarrow> Some d | None \<Rightarrow> vp_bit_depth p)
                           | None \<Rightarrow> vp_bit_depth p) of Some d \<Rightarrow> 10 \<le> d | None \<Rightarrow> True)"
  by (simp add: validate_bit_depth_def bit_depth_fallback_def split: option.splits)

lemma hdr_status_spec:
  "hv_valid (validate_hdr_status pr (Some h)) \<longleftrightarrow>
     (pr_mi_available pr \<longrightarrow> map_option mi_is_hdr (pr_mi pr) = Some h)"
  by (auto simp: validate_hdr_status_def validate_hdr_result_def split: option.splits)

lemma audio_spec:
  "fst (validate_audio cs (Some n)) \<and> fst (snd (validate_audio cs (Some n))) \<longleftrightarrow>
     list_all (\<lambda>c. to_lower c = ''opus'') cs \<and> int (length cs) = n"
  by (simp add: validate_audio_def Let_def list_all_iff)

lemma codec_spec:
  "pr_ff_width pr = Some w \<Longrightarrow> 0 < w \<Longrightarrow> \<not> str_contains ''av01'' (to_lower (case pr_codec pr of Some c \<Rightarrow> c | None \<Rightarrow> [])) \<Longrightarrow>
   fst (validate_video_codec pr) = str_contains ''av1'' (to_lower (case pr_codec pr of Some c \<Rightarrow> c | None \<Rightarrow> []))"
  by (simp add: validate_video_codec_def Let_def)

subsection \<open>Properties\<close>

text \<open>C31. With every expectation given (as \<open>ProcessVideos\<close> does) and the output's properties
  readable, \<open>ValidateOutputVideo\<close> returns a result whose verdict is the conjunction of the
  seven checks of section 4.9 of the spec, as long as the audio streams can be probed and the
  codec name does not contain \<open>av01\<close> (which the code accepts in addition to \<open>av1\<close>).\<close>

theorem validator_refines_spec:
  assumes "pr_props pr = Some p" "pr_ff_width pr = Some w" "0 < w" "pr_audio pr \<noteq> None"
    and "\<not> str_contains ''av01'' (to_lower (case pr_codec pr of Some c \<Rightarrow> c | None \<Rightarrow> []))"
  shows "map_sum id is_valid (validate_output_video pr (full_options ew eh e h n))
         = Inr (spec_validation pr ew eh e h n)"
proof -
  obtain cs where cs: "pr_audio pr = Some cs" using assms(4) by auto
  show ?thesis
    using assms(1,2) codec_spec [OF assms(2,3,5)] bit_depth_spec [OF assms(1)] audio_spec [of cs n]
    by (auto simp: validate_output_video_def validate_checks_full spec_validation_def cs hdr_status_spec
                  validate_dimensions_def validate_duration_def validate_sync_def
                  duration_tolerance_def max_sync_drift_ms_def Let_def)
qed

theorem validator_refines_spec_witness:
  "map_sum id is_valid (validate_output_video ex_probe (full_options 1920 800 30 False 2))
   = Inr (spec_validation ex_probe 1920 800 30 False 2)"
  using validator_refines_spec [of ex_probe "the (pr_props ex_probe)" 1920 1920 800 30 False 2]
  by (simp add: ex_probe_def to_lower_def ascii_lower_def)

text \<open>C32. When the audio streams of the output cannot be probed, \<open>ValidateOutputVideo\<close>
  still returns a result, and its audio checks pass whatever the expected track count:
  a failed probe never fails validation.\<close>

theorem validator_audio_probe_failure:
  assumes "pr_props pr = Some p" "pr_ff_width pr = Some w" "pr_audio pr = None"
  shows "\<exists>r. validate_output_video pr opts = Inr r \<and> vr_opus r \<and> vr_tracks_ok r
             \<and> vr_audio_msg r = ''Failed to get audio info''"
  using assms by (simp add: validate_output_video_def validate_checks_def Let_def split: prod.splits option.splits)

theorem validator_audio_probe_failure_witness:
  "\<exists>r. validate_output_video (ex_probe\<lparr>pr_audio := None\<rparr>) (full_options 1920 800 30 False 2) = Inr r
       \<and> vr_opus r \<and> vr_tracks_ok r \<and> vr_audio_msg r = ''Failed to get audio info''"
  using validator_audio_probe_failure [of "ex_probe\<lparr>pr_audio := None\<rparr>"] by (simp add: ex_probe_def)

end
