(* ===== verification/Audio.thy ===== *)
theory Audio
  imports Validator
begin

text \<open>
  Audio extraction and the final remux, \<open>src/internal/chunk/audio.go\<close>:
  \<open>calculateAudioBitrate\<close>, the FFmpeg command lines of \<open>ExtractAudio\<close> and \<open>MuxFinal\<close>,
  and the outcomes of the two functions.  FFmpeg itself is a parameter \<open>run\<close> telling
  whether a command line succeeds; the \<open>os.Stat\<close> calls of \<open>MuxFinal\<close> are booleans.
  The paths of the work directory (\<open>GetVideoPath\<close>, \<open>GetAudioPath\<close>) are arguments.
  FFmpeg reads a command line as options, each followed by its value unless it takes none
  (\<open>-hide_banner\<close>, \<open>-vn\<close>); \<open>ff_pairs\<close> is that reading, used to state which
  input each stream map refers to.
\<close>

text \<open>\<open>ffprobe.AudioStreamInfo\<close> as the two functions read it.\<close>

record audio_stream_info =
  asi_index :: int
  asi_channels :: u32

datatype audio_error = AudioExtractFailed | VideoNotFound | FinalMuxFailedErr

subsection \<open>calculateAudioBitrate\<close>

text \<open>Kbps by channel count; \<open>channels * 48\<close> is a \<open>uint32\<close> product and wraps.\<close>

definition calculate_audio_bitrate :: "u32 \<Rightarrow> u32" where
  "calculate_audio_bitrate ch =
     (if ch = 1 then 64 else if ch = 2 then 128 else if ch = 6 then 256 else if ch = 8 then 384
      else ch * 48)"

subsection \<open>ExtractAudio\<close>

text \<open>The arguments of stream \<open>i\<close> of the loop (lines 30--36).\<close>

fun stream_args :: "nat \<Rightarrow> audio_stream_info list \<Rightarrow> string list" where
  "stream_args i [] = []"
| "stream_args i (s # ss) =
     [''-map'', ''0:a:'' @ fmt_int (asi_index s),
      ''-c:a:'' @ nat_digits i, ''libopus'',
      ''-b:a:'' @ nat_digits i, fmt_u32 (calculate_audio_bitrate (asi_channels s)) @ ''k'',
      ''-filter:a:'' @ nat_digits i, ''aformat=channel_layouts=7.1|5.1|stereo|mono'']
     @ stream_args (Suc i) ss"

definition extract_audio_args :: "string \<Rightarrow> string \<Rightarrow> audio_stream_info list \<Rightarrow> string list" where
  "extract_audio_args inp apath streams =
     [''-hide_banner'', ''-i'', inp, ''-vn'', ''-map_metadata'', ''0'']
     @ stream_args 0 streams @ [''-y'', apath]"

text \<open>The result and the FFmpeg command lines run, in order.\<close>

definition extract_audio ::
  "(string list \<Rightarrow> bool) \<Rightarrow> string \<Rightarrow> string \<Rightarrow> audio_stream_info list \<Rightarrow> audio_error option \<times> string list list" where
  "extract_audio run inp apath streams =
     (if streams = [] then (None, [])
      else (let args = extract_audio_args inp apath streams in
            (if run args then None else Some AudioExtractFailed, [args])))"

subsection \<open>MuxFinal\<close>

definition subtitle_input_idx :: "bool \<Rightarrow> nat" where
  "subtitle_input_idx has_audio = (if has_audio then 2 else 1)"

definition mux_final_args :: "string \<Rightarrow> string \<Rightarrow> string \<Rightarrow> string \<Rightarrow> bool \<Rightarrow> string list" where
  "mux_final_args inp vpath apath outp has_audio =
     [''-hide_banner'', ''-i'', vpath]
     @ (if has_audio then [''-i'', apath] else [])
     @ [''-i'', inp, ''-map'', ''0:v:0'']
     @ (if has_audio then [''-map'', ''1:a?''] else [])
     @ [''-map'', nat_digits (subtitle_input_idx has_audio) @ '':s?'', ''-c'', ''copy'',
        ''-map_metadata'', ''0'', ''-map_chapters'', nat_digits (subtitle_input_idx has_audio),
        ''-movflags'', ''+faststart'', ''-y'', outp]"

definition mux_final ::
  "(string list \<Rightarrow> bool) \<Rightarrow> bool \<Rightarrow> bool \<Rightarrow> string \<Rightarrow> string \<Rightarrow> string \<Rightarrow> string \<Rightarrow> audio_stream_info list
   \<Rightarrow> audio_error option \<times> string list list" where
  "mux_final run video_exists audio_exists inp vpath apath outp streams =
     (if \<not> video_exists then (Some VideoNotFound, [])
      else (let has_audio = audio_exists \<and> streams \<noteq> [];
                args = mux_final_args inp vpath apath outp has_audio in
            (if run args then None else Some FinalMuxFailedErr, [args])))"

subsection \<open>Reading a command line\<close>

text \<open>The options of these command lines that take no value.\<close>

definition ff_flags :: "string list" where
  "ff_flags = [''-hide_banner'', ''-vn'']"

fun ff_pairs :: "string list \<Rightarrow> (string \<times> string) list" where
  "ff_pairs (f # v # rest) = (if f \<in> set ff_flags then ff_pairs (v # rest) else (f, v) # ff_pairs rest)"
| "ff_pairs _ = []"

definition ff_opt :: "string \<Rightarrow> string list \<Rightarrow> string list" where
  "ff_opt f args = map snd (filter (\<lambda>p. fst p = f) (ff_pairs args))"

text \<open>The bitrate rule of section 7 of the spec: 64, 128, 256 and 384 kbps for 1, 2, 6 and 8
  channels, else 48 kbps per channel.\<close>

definition spec_audio_bitrate :: "nat \<Rightarrow> nat" where
  "spec_audio_bitrate ch =
     (if ch = 1 then 64 else if ch = 2 then 128 else if ch = 6 then 256 else if ch = 8 then 384 else 48 * ch)"

text \<open>A 5.1 and a stereo track.\<close>

definition ex_streams :: "audio_stream_info list" where
  "ex_streams = [\<lparr>asi_index = 0, asi_channels = 6\<rparr>, \<lparr>asi_index = 1, asi_channels = 2\<rparr>]"

text \<open>The file an input specifier \<open>n:...\<close> of a stream map refers to.\<close>

definition map_input :: "string list \<Rightarrow> string \<Rightarrow> string option" where
  "map_input args spec =
     (let n = digits_value (takeWhile dec_digit spec); ins = ff_opt ''-i'' args in
      if n < length ins then Some (ins ! n) else None)"

subsection \<open>Lemmas\<close>

lemma stream_args_bitrate:
  "map snd (filter (\<lambda>p. fst p = ''-b:a:'' @ nat_digits i) (ff_pairs (stream_args j ss @ rest)))
   = (if j \<le> i \<and> i < j + length ss then [fmt_u32 (calculate_audio_bitrate (asi_channels (ss ! (i - j)))) @ ''k''] else [])
     @ map snd (filter (\<lambda>p. fst p = ''-b:a:'' @ nat_digits i) (ff_pairs rest))"
proof (induction ss arbitrary: j)
  case Nil
  then show ?case by simp
next
  case (Cons s ss)
  show ?case using Cons.IH [of "Suc j"] by (auto simp: nth_Cons' Suc_le_eq ff_flags_def)
qed

lemma stream_args_map:
  "map snd (filter (\<lambda>p. fst p = ''-map'') (ff_pairs (stream_args j ss @ rest)))
   = map (\<lambda>s. ''0:a:'' @ fmt_int (asi_index s)) ss @ map snd (filter (\<lambda>p. fst p = ''-map'') (ff_pairs rest))"
  by (induction ss arbitrary: j) (auto simp: ff_flags_def)

lemma map_spec_digits [simp]:
  "dec_digit CHR ''0''" "dec_digit CHR ''1''" "digits_value ''0'' = 0" "digits_value ''1'' = 1"
  by (simp_all add: dec_digit_def digit_val_def digits_value_def)

subsection \<open>Properties\<close>

text \<open>C37. The final remux reads the merged video, the extracted audio exactly when the audio
  file exists and the source has audio streams, and the source; its stream maps take the
  video from the merged file, the audio from the audio file, and the subtitles and the
  chapters from the source, whichever inputs are present.\<close>

theorem mux_final_sources:
  "\<exists>args. snd (mux_final run True ae inp v a outp ss) = [args]
     \<and> ff_opt ''-i'' args = v # (if ae \<and> ss \<noteq> [] then [a] else []) @ [inp]
     \<and> map (map_input args) (ff_opt ''-map'' args) = [Some v] @ (if ae \<and> ss \<noteq> [] then [Some a] else []) @ [Some inp]
     \<and> map (map_input args) (ff_opt ''-map_chapters'' args) = [Some inp]
     \<and> last args = outp"
  by (simp add: mux_final_def mux_final_args_def subtitle_input_idx_def ff_opt_def map_input_def
      takeWhile_nat_digits ff_flags_def Let_def)

text \<open>C38. \<open>ExtractAudio\<close> runs one FFmpeg command for a source with audio, mapping every
  audio stream of the source in order, and output stream \<open>i\<close> is given the bitrate
  \<open>calculateAudioBitrate\<close> computes from the channel count of source stream \<open>i\<close>.\<close>

theorem extract_audio_streams:
  assumes "streams \<noteq> []" "i < length streams"
  shows "\<exists>r. extract_audio run inp apath streams = (r, [extract_audio_args inp apath streams])
     \<and> ff_opt ''-map'' (extract_audio_args inp apath streams) = map (\<lambda>s. ''0:a:'' @ fmt_int (asi_index s)) streams
     \<and> ff_opt (''-b:a:'' @ nat_digits i) (extract_audio_args inp apath streams)
         = [fmt_u32 (calculate_audio_bitrate (asi_channels (streams ! i))) @ ''k'']"
  using assms stream_args_bitrate [of i 0 streams "[''-y'', apath]"] stream_args_map [of 0 streams "[''-y'', apath]"]
  by (simp add: extract_audio_def extract_audio_args_def ff_opt_def ff_flags_def Let_def)

theorem extract_audio_streams_witness:
  "\<exists>r. extract_audio (\<lambda>_. True) ''in.mkv'' ''audio.mka'' ex_streams = (r, [extract_audio_args ''in.mkv'' ''audio.mka'' ex_streams])
     \<and> ff_opt ''-map'' (extract_audio_args ''in.mkv'' ''audio.mka'' ex_streams) = map (\<lambda>s. ''0:a:'' @ fmt_int (asi_index s)) ex_streams
     \<and> ff_opt (''-b:a:'' @ nat_digits 0) (extract_audio_args ''in.mkv'' ''audio.mka'' ex_streams)
         = [fmt_u32 (calculate_audio_bitrate (asi_channels (ex_streams ! 0))) @ ''k'']"
  using extract_audio_streams [of ex_streams 0 "\<lambda>_. True" "''in.mkv''" "''audio.mka''"] by (simp add: ex_streams_def)

text \<open>C39. \<open>calculateAudioBitrate\<close> follows the spec's bitrate rule, except that the
  \<open>uint32\<close> product \<open>channels * 48\<close> wraps: the kbps value is the spec's modulo
  \<open>2^32\<close>, which differs from it from 89478486 channels on.\<close>

theorem audio_bitrate_spec:
  "unat (calculate_audio_bitrate ch) = spec_audio_bitrate (unat ch) mod 2 ^ 32"
  by (auto simp: calculate_audio_bitrate_def spec_audio_bitrate_def unat_word_ariths mult.commute word_unat_eq_iff)

end
