(* ===== verification/Encoder_Args.thy ===== *)
theory Encoder_Args
  imports Validator
begin

text \<open>
  The SvtAv1EncApp command line, \<open>src/internal/encoder/encoder.go\<close> lines 12--118:
  \<open>EncConfig\<close>, \<open>MakeSvtCmd\<close> and \<open>buildSvtArgs\<close>.  The fields of \<open>ffms.VidInf\<close> that the
  command line reads are a record.  \<open>fmt.Sprintf("%d")\<close> is \<open>nat_digits\<close>/\<open>fmt_int\<close>;
  the CRF, a \<open>float32\<close> holding the integer quality (at most 255, exact in \<open>float32\<close>),
  is a natural number printed by \<open>%.0f\<close> as its digits.  The keyframe interval
  \<open>int(fps * 10)\<close> and the \<open>%.2f\<close> of the AC bias are computed on reals: the model
  has no \<open>float64\<close> rounding.  SVT-AV1 reads its command line as option/value pairs.
\<close>

record svt_inf =
  si_fps_num :: int
  si_fps_den :: int
  si_color_primaries :: "int option"
  si_transfer :: "int option"
  si_matrix :: "int option"
  si_mastering :: "string option"
  si_content_light :: "string option"

record enc_cfg =
  cf_inf :: svt_inf
  cf_crf :: nat
  cf_preset :: u8
  cf_tune :: u8
  cf_output :: string
  cf_grain :: "string option"
  cf_width :: u32
  cf_height :: u32
  cf_frames :: int
  cf_ac_bias :: real
  cf_vb :: bool
  cf_vb_strength :: u8
  cf_vb_octile :: u8
  cf_lp :: int

definition svt_enc_binary :: string where
  "svt_enc_binary = ''SvtAv1EncApp''"

subsection \<open>Number formatting\<close>

definition fmt_u8 :: "u8 \<Rightarrow> string" where
  "fmt_u8 w = nat_digits (unat w)"

text \<open>Go's conversion \<open>int(x)\<close> of a float truncates toward zero.\<close>

definition go_trunc :: "real \<Rightarrow> int" where
  "go_trunc x = (if 0 \<le> x then \<lfloor>x\<rfloor> else \<lceil>x\<rceil>)"

definition keyint_frames :: "int \<Rightarrow> int \<Rightarrow> int" where
  "keyint_frames num den = go_trunc (real_of_int num / real_of_int den * 10)"

text \<open>\<open>%.2f\<close>: the value rounded to hundredths, halves to even, with two decimals.\<close>

definition round_half_even :: "real \<Rightarrow> nat" where
  "round_half_even x =
     (let n = \<lfloor>x\<rfloor>; f = x - of_int n in
      nat (if f > 1 / 2 \<or> (f = 1 / 2 \<and> odd n) then n + 1 else n))"

definition fmt_2f :: "real \<Rightarrow> string" where
  "fmt_2f r =
     (let h = round_half_even (\<bar>r\<bar> * 100); ds = nat_digits (h mod 100) in
      (if r < 0 then ''-'' else '''') @ nat_digits (h div 100) @ ''.''
      @ (if h mod 100 < 10 then ''0'' @ ds else ds))"

subsection \<open>buildSvtArgs and MakeSvtCmd\<close>

definition opt_arg :: "string \<Rightarrow> 'a option \<Rightarrow> ('a \<Rightarrow> string) \<Rightarrow> string list" where
  "opt_arg flag v f = (case v of None \<Rightarrow> [] | Some x \<Rightarrow> [flag, f x])"

definition build_svt_args :: "enc_cfg \<Rightarrow> string list" where
  "build_svt_args c =
     (let inf = cf_inf c; keyint = keyint_frames (si_fps_num inf) (si_fps_den inf) in
      [''-i'', ''stdin'', ''--input-depth'', ''10'', ''--color-format'', ''1'', ''--profile'', ''0'',
       ''--passes'', ''1'', ''--tile-rows'', ''0'', ''--tile-columns'', ''0'',
       ''--width'', fmt_u32 (cf_width c), ''--height'', fmt_u32 (cf_height c),
       ''--fps-num'', fmt_int (si_fps_num inf), ''--fps-denom'', fmt_int (si_fps_den inf),
       ''--keyint'', fmt_int keyint, ''--rc'', ''0'', ''--scd'', ''1'', ''--scm'', ''0'', ''--progress'', ''2'',
       ''--frames'', fmt_int (cf_frames c), ''--crf'', nat_digits (cf_crf c), ''--preset'', fmt_u8 (cf_preset c)]
      @ [''--tune'', fmt_u8 (cf_tune c)]
      @ (if cf_lp c > 0 then [''--lp'', fmt_int (cf_lp c)] else [])
      @ opt_arg ''--color-primaries'' (si_color_primaries inf) fmt_int
      @ opt_arg ''--transfer-characteristics'' (si_transfer inf) fmt_int
      @ opt_arg ''--matrix-coefficients'' (si_matrix inf) fmt_int
      @ opt_arg ''--mastering-display'' (si_mastering inf) id
      @ opt_arg ''--content-light'' (si_content_light inf) id
      @ opt_arg ''--fgs-table'' (cf_grain c) id
      @ (if cf_ac_bias c \<noteq> 0 then [''--ac-bias'', fmt_2f (cf_ac_bias c)] else [])
      @ (if cf_vb c then [''--enable-variance-boost'', ''1'', ''--variance-boost-strength'', fmt_u8 (cf_vb_strength c),
                          ''--variance-octile'', fmt_u8 (cf_vb_octile c)] else [])
      @ [''-b'', cf_output c])"

definition make_svt_cmd :: "enc_cfg \<Rightarrow> string \<times> string list" where
  "make_svt_cmd c = (''nice'', [''-n'', ''19'', svt_enc_binary] @ build_svt_args c)"

subsection \<open>Reading the command line\<close>

fun svt_pairs :: "string list \<Rightarrow> (string \<times> string) list" where
  "svt_pairs (f # v # rest) = (f, v) # svt_pairs rest"
| "svt_pairs _ = []"

subsection \<open>Lemmas\<close>

lemma svt_pairs_app2 [simp]: "svt_pairs ([f, v] @ rest) = (f, v) # svt_pairs rest"
  by simp

lemma svt_pairs_opt_arg [simp]:
  "svt_pairs (opt_arg flag x g @ rest) = (case x of None \<Rightarrow> [] | Some y \<Rightarrow> [(flag, g y)]) @ svt_pairs rest"
  by (simp add: opt_arg_def split: option.splits)

lemma concat_opt_arg [simp]:
  "concat (map (\<lambda>(f, v). [f, v]) (case x of None \<Rightarrow> [] | Some y \<Rightarrow> [(flag, g y)])) = opt_arg flag x g"
  by (simp add: opt_arg_def split: option.splits)

lemma fst_opt_pairs [simp]:
  "map fst (case x of None \<Rightarrow> [] | Some y \<Rightarrow> [(flag, g y)]) = (case x of None \<Rightarrow> [] | Some y \<Rightarrow> [flag])"
  by (simp split: option.splits)

subsection \<open>Properties\<close>

text \<open>C40. The SvtAv1EncApp command line is a sequence of option/value pairs in which no
  option appears twice and the output \<open>-b\<close> comes last; it passes the cropped width and
  height, the chunk's frame count and the CRF, and limits the logical processors exactly when
  a positive thread count is configured.\<close>

theorem svt_args_options:
  "let args = build_svt_args c; ps = svt_pairs args in
     args = concat (map (\<lambda>(f, v). [f, v]) ps) \<and> distinct (map fst ps) \<and> last ps = (''-b'', cf_output c)
     \<and> map_of ps ''--width'' = Some (fmt_u32 (cf_width c)) \<and> map_of ps ''--height'' = Some (fmt_u32 (cf_height c))
     \<and> map_of ps ''--frames'' = Some (fmt_int (cf_frames c)) \<and> map_of ps ''--crf'' = Some (nat_digits (cf_crf c))
     \<and> (map_of ps ''--lp'' \<noteq> None \<longleftrightarrow> 0 < cf_lp c)"
  by (simp add: build_svt_args_def Let_def id_def split: option.splits)

text \<open>For a non-negative frame-rate numerator and a positive denominator, the keyframe
  interval \<open>int(fps * 10)\<close> is the integer quotient of ten times the numerator by the
  denominator: ten seconds of frames, rounded down.\<close>

theorem keyint_frames_exact:
  assumes "0 \<le> num" "0 < den"
  shows "keyint_frames num den = (10 * num) div den"
proof -
  have "real_of_int num / real_of_int den * 10 = real_of_int (10 * num) / real_of_int den" by simp
  moreover have "0 \<le> real_of_int (10 * num) / real_of_int den" using assms by simp
  ultimately show ?thesis unfolding keyint_frames_def go_trunc_def by (simp only: if_True floor_divide_of_int_eq)
qed

theorem keyint_frames_exact_witness:
  "0 \<le> (24000::int) \<and> 0 < (1001::int) \<and> keyint_frames 24000 1001 = 239"
  using keyint_frames_exact [of 24000 1001] by simp

end
