(* ===== verification/Orchestrator.thy ===== *)
theory Orchestrator
  imports Crop Merge Pool_Model Config
begin

text \<open>
  The per-file pipeline, \<open>ProcessChunked\<close> in \<open>src/internal/processing/chunked.go\<close>, with
  \<open>parseCropFilter\<close>.  It composes the components of the other theories: the crop decision
  (\<open>Crop.detect_crop\<close>, a parameter of the run applied to the crop-mode flag), the planner
  (\<open>Chunk.load_scenes\<close>, \<open>Chunk.chunkify\<close>), admission (\<open>Admission.cap_workers\<close>), the pool
  (\<open>EncodeAll\<close>, whose returned error is a parameter: the pool theories say what it is) and
  the merger (\<open>Merge.merge_batched\<close>, \<open>Merge.merge_output\<close>).  The other external calls
  (work directory creation, FFMS2 indexing, \<open>GetVidInf\<close>, the keyframe writer, audio
  extraction, the final mux) are outcomes in \<open>orch_env\<close>.  The run records the reporter
  events it emits (stage names, the crop summary, the worker-count message of the Encoding stage, \<open>EncodingStarted\<close>);
  \<open>rep.Verbose\<close> and the progress callback are not modelled.  The deferred clean-up is
  modelled: the work directory is removed when the output file exists when the function
  returns.
\<close>

subsection \<open>Inputs and outputs\<close>

record vid_inf =
  vi_width :: u32
  vi_height :: u32
  vi_frames :: int
  vi_fps_num :: int
  vi_fps_den :: int

text \<open>\<open>encode.EncodeConfig\<close> as \<open>ProcessChunked\<close> fills it.\<close>

record encode_config =
  ec_workers :: int
  ec_buffer :: int
  ec_crf :: nat
  ec_preset :: u8
  ec_tune :: u8
  ec_ac_bias :: real
  ec_vb :: bool
  ec_vb_strength :: u8
  ec_vb_octile :: u8
  ec_lp :: int

datatype mux_outcome = MuxOk | MuxFail bool

record orch_env =
  oe_mkdir_ok :: bool
  oe_index_ok :: bool
  oe_detect :: "bool \<Rightarrow> crop_result"
  oe_vidinf :: "vid_inf option"
  oe_keyframes :: "vid_inf \<Rightarrow> real \<Rightarrow> file_state option"
  oe_available :: u64
  oe_encode :: "chunk list \<Rightarrow> encode_config \<Rightarrow> u32 \<Rightarrow> u32 \<Rightarrow> stream_error option"
  oe_merge :: merge_env
  oe_audio_ok :: bool
  oe_mux :: mux_outcome
  oe_out_pre :: bool

datatype orch_error =
    WorkDirFailed
  | IndexFailed
  | VidInfFailed
  | ChunkGenFailed
  | ScenesFailed chunk_error
  | EncodeFailed stream_error
  | BatchedMergeFailed merge_error
  | VideoMergeFailed merge_error
  | AudioFailed
  | FinalMuxFailed

datatype orch_event =
    StageEv string
  | CropEv crop_result bool
  | WorkersEv int int bool
  | EncodingStartedEv int

record orch_out =
  oo_result :: "orch_error + crop_result"
  oo_events :: "orch_event list"
  oo_cleaned :: bool
  oo_out_exists :: bool
  oo_fs :: fsys

subsection \<open>parseCropFilter\<close>

text \<open>One \<open>%d\<close> of \<open>fmt.Sscanf\<close> into a \<open>uint32\<close>: leading blanks skipped, a run of
  digits, an error on no digit or on overflow.\<close>

definition scan_u32 :: "string \<Rightarrow> (nat \<times> string) option" where
  "scan_u32 s =
     (let s' = dropWhile (\<lambda>c. c = CHR '' '' \<or> c = CHR 0x09) s; d = takeWhile dec_digit s' in
      if d = [] \<or> 2 ^ 32 \<le> digits_value d then None else Some (digits_value d, drop (length d) s'))"

text \<open>A literal of the format: the input must continue with it.\<close>

definition scan_lit :: "string \<Rightarrow> string \<Rightarrow> string option" where
  "scan_lit lit s = (if take (length lit) s = lit then Some (drop (length lit) s) else None)"

definition parse_crop_filter :: "string \<Rightarrow> u32 \<times> u32" where
  "parse_crop_filter f =
     (case Option.bind (scan_lit ''crop='' f) scan_u32 of
        None \<Rightarrow> (0, 0)
      | Some (w, r1) \<Rightarrow>
          (case Option.bind (scan_lit '':'' r1) scan_u32 of
             None \<Rightarrow> (0, 0)
           | Some (h, r2) \<Rightarrow>
               (case Option.bind (scan_lit '':'' r2) scan_u32 of
                  None \<Rightarrow> (0, 0)
                | Some (x, r3) \<Rightarrow>
                    (case Option.bind (scan_lit '':'' r3) scan_u32 of
                       None \<Rightarrow> (0, 0)
                     | Some (y, r4) \<Rightarrow> (of_nat x, of_nat y)))))"

subsection \<open>ProcessChunked\<close>

definition encode_config_of :: "config \<Rightarrow> nat \<Rightarrow> encode_config" where
  "encode_config_of cfg quality =
     \<lparr>ec_workers = cfg_workers cfg, ec_buffer = cfg_chunk_buffer cfg, ec_crf = quality,
      ec_preset = cfg_preset cfg, ec_tune = cfg_tune cfg, ec_ac_bias = cfg_ac_bias cfg,
      ec_vb = cfg_variance_boost cfg, ec_vb_strength = cfg_vb_strength cfg,
      ec_vb_octile = cfg_vb_octile cfg, ec_lp = cfg_threads cfg\<rparr>"

text \<open>The deferred clean-up: once registered (after the work directory exists), it
  removes the work directory when the output file exists at return (it existed before the
  run, or the final mux created it).\<close>

definition orch_end ::
  "orch_env \<Rightarrow> bool \<Rightarrow> bool \<Rightarrow> orch_error + crop_result \<Rightarrow> orch_event list \<Rightarrow> fsys \<Rightarrow> orch_out" where
  "orch_end oe registered out_made res evs fs =
     \<lparr>oo_result = res, oo_events = evs, oo_cleaned = registered \<and> (oe_out_pre oe \<or> out_made),
      oo_out_exists = oe_out_pre oe \<or> out_made, oo_fs = fs\<rparr>"

text \<open>Lines 236--263: merge, wait for the audio, final mux.\<close>

definition orch_finish ::
  "orch_env \<Rightarrow> nat \<Rightarrow> crop_result \<Rightarrow> vid_inf \<Rightarrow> nat \<Rightarrow> fsys \<Rightarrow> orch_event list \<Rightarrow> orch_out" where
  "orch_finish oe audio_n crop vi n fs evs =
     (let evs1 = evs @ [StageEv ''Merging''] in
      case (if n > 500 then merge_batched (oe_merge oe) fs n else Inr fs) of
        Inl (e, fs1) \<Rightarrow> orch_end oe True False (Inl (BatchedMergeFailed e)) evs1 fs1
      | Inr fs1 \<Rightarrow>
          (case merge_output (oe_merge oe) fs1 (vi_fps_den vi) of
             Inl (e, fs2) \<Rightarrow> orch_end oe True False (Inl (VideoMergeFailed e)) evs1 fs2
           | Inr fs2 \<Rightarrow>
               if 0 < audio_n \<and> \<not> oe_audio_ok oe then orch_end oe True False (Inl AudioFailed) evs1 fs2
               else (let evs2 = evs1 @ [StageEv ''Muxing''] in
                     case oe_mux oe of
                       MuxOk \<Rightarrow> orch_end oe True True (Inr crop) evs2 fs2
                     | MuxFail left \<Rightarrow> orch_end oe True left (Inl FinalMuxFailed) evs2 fs2)))"

text \<open>Lines 112--234: scenes, chunks, crop offsets, admission, \<open>EncodeAll\<close>.\<close>

definition orch_encode ::
  "config \<Rightarrow> orch_env \<Rightarrow> nat \<Rightarrow> nat \<Rightarrow> crop_result \<Rightarrow> vid_inf \<Rightarrow> file_state \<Rightarrow> fsys \<Rightarrow> orch_event list \<Rightarrow> orch_out" where
  "orch_encode cfg oe audio_n quality crop vi sf fs evs =
     (case load_scenes sf (vi_frames vi) of
        Inl e \<Rightarrow> orch_end oe True False (Inl (ScenesFailed e)) evs fs
      | Inr scenes \<Rightarrow>
          (let chunks = chunkify scenes;
               evs1 = evs @ [StageEv ''Chunking''];
               (ch, cv) = (if cr_required crop \<and> cr_filter crop \<noteq> [] then parse_crop_filter (cr_filter crop) else (0, 0));
               (actual, capped) = cap_workers (cfg_workers cfg) (vi_width vi) (vi_height vi) (oe_available oe);
               evs2 = evs1 @ [WorkersEv actual (cfg_workers cfg) capped, EncodingStartedEv (vi_frames vi)]
           in case oe_encode oe chunks (encode_config_of cfg quality) ch cv of
                Some e \<Rightarrow> orch_end oe True False (Inl (EncodeFailed e)) evs2 fs
              | None \<Rightarrow> orch_finish oe audio_n crop vi (length chunks) fs evs2))"

definition process_chunked :: "config \<Rightarrow> orch_env \<Rightarrow> nat \<Rightarrow> nat \<Rightarrow> fsys \<Rightarrow> orch_out" where
  "process_chunked cfg oe audio_n quality fs =
     (if \<not> oe_mkdir_ok oe then orch_end oe False False (Inl WorkDirFailed) [] fs
      else
        (let evs0 = [StageEv ''Preparing''] in
         if \<not> oe_index_ok oe then orch_end oe True False (Inl IndexFailed) evs0 fs
         else
           (let crop = oe_detect oe (cfg_crop_mode cfg = ''none'');
                evs1 = evs0 @ [CropEv crop (cfg_crop_mode cfg = ''none'')]
            in case oe_vidinf oe of
                 None \<Rightarrow> orch_end oe True False (Inl VidInfFailed) evs1 fs
               | Some vi \<Rightarrow>
                   (let evs2 = evs1 @ [StageEv ''Chunking''] in
                    case oe_keyframes oe vi (chunk_duration_for_width cfg (vi_width vi)) of
                      None \<Rightarrow> orch_end oe True False (Inl ChunkGenFailed) evs2 fs
                    | Some sf \<Rightarrow> orch_encode cfg oe audio_n quality crop vi sf fs evs2))))"

end
