(* ===== verification/Orchestrator_Props.thy ===== *)
theory Orchestrator_Props
  imports Orchestrator Merge_Props
begin

text \<open>
  The properties of \<open>ProcessChunked\<close> (\<open>src/internal/processing/chunked.go\<close>): the
  composition of planner, pool outcome and merger on the success path, the order of its
  stages, the deferred clean-up on failure, and the crop offsets it passes to the encoder.
\<close>

text \<open>The stage names of the reporter events, and the stages of the state machine of
  section 4.8 of the spec as \<open>ProcessChunked\<close> reports them.\<close>

definition stage_names :: "orch_event list \<Rightarrow> string list" where
  "stage_names evs = List.map_filter (\<lambda>e. case e of StageEv s \<Rightarrow> Some s | WorkersEv _ _ _ \<Rightarrow> Some ''Encoding'' | _ \<Rightarrow> None) evs"

definition orch_stages :: "string list" where
  "orch_stages = [''Preparing'', ''Chunking'', ''Chunking'', ''Encoding'', ''Merging'', ''Muxing'']"

text \<open>A 1000-frame 1080p source whose scene file gives two chunks.\<close>

definition ex_vi :: vid_inf where
  "ex_vi = \<lparr>vi_width = 1920, vi_height = 1080, vi_frames = 1000, vi_fps_num = 24, vi_fps_den = 1\<rparr>"

definition ex_oe :: orch_env where
  "ex_oe = \<lparr>oe_mkdir_ok = True, oe_index_ok = True, oe_detect = (\<lambda>_. crop_to (crop_str 1920 800 0 140)),
            oe_vidinf = Some ex_vi, oe_keyframes = (\<lambda>_ _. Some (Contents ''0\<newline>720\<newline>'')), oe_available = 0,
            oe_encode = (\<lambda>_ _ _ _. None), oe_merge = merge_ok_env, oe_audio_ok = True, oe_mux = MuxOk,
            oe_out_pre = False\<rparr>"

definition ex_scenes :: "scene list" where
  "ex_scenes = [\<lparr>scene_start = 0, scene_end = 720\<rparr>, \<lparr>scene_start = 720, scene_end = 1000\<rparr>]"

subsection \<open>Lemmas\<close>

lemma stage_names_append [simp]: "stage_names (xs @ ys) = stage_names xs @ stage_names ys"
  by (simp add: stage_names_def map_filter_def)

lemma stage_names_simps [simp]:
  "stage_names [] = []"
  "stage_names (StageEv s # es) = s # stage_names es"
  "stage_names (CropEv c b # es) = stage_names es"
  "stage_names (WorkersEv a r b # es) = ''Encoding'' # stage_names es"
  "stage_names (EncodingStartedEv f # es) = stage_names es"
  by (simp_all add: stage_names_def map_filter_simps)

lemma orch_finish_ok:
  assumes "merge_phase (oe_merge oe) fs n (vi_fps_den vi) = Inr fs2"
  shows "orch_finish oe audio_n crop vi n fs evs =
     (if 0 < audio_n \<and> \<not> oe_audio_ok oe then orch_end oe True False (Inl AudioFailed) (evs @ [StageEv ''Merging'']) fs2
      else case oe_mux oe of
             MuxOk \<Rightarrow> orch_end oe True True (Inr crop) (evs @ [StageEv ''Merging'', StageEv ''Muxing'']) fs2
           | MuxFail left \<Rightarrow> orch_end oe True left (Inl FinalMuxFailed) (evs @ [StageEv ''Merging'', StageEv ''Muxing'']) fs2)"
  using assms by (auto simp: orch_finish_def merge_phase_def Let_def split: sum.splits if_splits)

lemma process_chunked_unfold:
  assumes "oe_mkdir_ok oe" "oe_index_ok oe" "oe_vidinf oe = Some vi"
    "oe_keyframes oe vi (chunk_duration_for_width cfg (vi_width vi)) = Some sf"
  shows "process_chunked cfg oe audio_n q fs =
         orch_encode cfg oe audio_n q (oe_detect oe (cfg_crop_mode cfg = ''none'')) vi sf fs
           [StageEv ''Preparing'', CropEv (oe_detect oe (cfg_crop_mode cfg = ''none'')) (cfg_crop_mode cfg = ''none''), StageEv ''Chunking'']"
  using assms by (simp add: process_chunked_def Let_def)

lemma orch_encode_ok:
  assumes "load_scenes sf (vi_frames vi) = Inr scenes"
    "\<forall>ch cv. oe_encode oe (chunkify scenes) (encode_config_of cfg q) ch cv = None"
  shows "orch_encode cfg oe audio_n q crop vi sf fs evs = orch_finish oe audio_n crop vi (length (chunkify scenes)) fs
           (evs @ [StageEv ''Chunking'', WorkersEv (fst (cap_workers (cfg_workers cfg) (vi_width vi) (vi_height vi) (oe_available oe)))
                    (cfg_workers cfg) (snd (cap_workers (cfg_workers cfg) (vi_width vi) (vi_height vi) (oe_available oe))),
                   EncodingStartedEv (vi_frames vi)])"
  using assms by (auto simp: orch_encode_def Let_def split: prod.splits)


lemma scan_u32_digits:
  "n < 2 ^ 32 \<Longrightarrow> takeWhile dec_digit r = [] \<Longrightarrow> scan_u32 (nat_digits n @ r) = Some (n, r)"
proof -
  assume n: "n < 2 ^ 32" and r: "takeWhile dec_digit r = []"
  have "hd (nat_digits n) \<in> set (nat_digits n)" by simp
  then have d: "dec_digit (hd (nat_digits n))" using nat_digits_all_digits [of n] by (simp add: list_all_iff)
  have "dropWhile (\<lambda>c. c = CHR '' '' \<or> c = CHR 0x09) (nat_digits n @ r) = nat_digits n @ r"
  proof (cases "nat_digits n")
    case (Cons a as)
    with d have "dec_digit a" by simp
    then have "\<not> (a = CHR '' '' \<or> a = CHR 0x09)" by (auto simp: dec_digit_def)
    then show ?thesis using Cons by simp
  qed simp
  then show ?thesis using n r by (simp add: scan_u32_def takeWhile_nat_digits Let_def)
qed



lemma process_chunked_to_mux:
  assumes ok: "oe_mkdir_ok oe" "oe_index_ok oe" "oe_vidinf oe = Some vi" "vi_fps_den vi \<noteq> 0"
    and kf: "oe_keyframes oe vi (chunk_duration_for_width cfg (vi_width vi)) = Some sf"
    and sc: "load_scenes sf (vi_frames vi) = Inr scenes" and n: "0 < length (chunkify scenes)"
    and enc: "\<forall>ch cv. oe_encode oe (chunkify scenes) (encode_config_of cfg q) ch cv = None"
    and fs: "fs = chunk_files c (length (chunkify scenes)) @ others"
    and others: "\<forall>p\<in>fst ` set others. \<not> is_enc_ivf p" "distinct (map fst others)"
    and env: "merge_env_ok (oe_merge oe)" and au: "audio_n = 0 \<or> oe_audio_ok oe"
  shows "oo_result (process_chunked cfg oe audio_n q fs)
           = (case oe_mux oe of MuxOk \<Rightarrow> Inr (oe_detect oe (cfg_crop_mode cfg = ''none'')) | MuxFail _ \<Rightarrow> Inl FinalMuxFailed)
     \<and> bits_of (oo_fs (process_chunked cfg oe audio_n q fs)) ''video.mkv''
         = Some (concat (map c [0..<length (chunkify scenes)]))
     \<and> oo_cleaned (process_chunked cfg oe audio_n q fs) = (oe_out_pre oe \<or> oe_mux oe \<noteq> MuxFail False)
     \<and> stage_names (oo_events (process_chunked cfg oe audio_n q fs)) = orch_stages"
proof -
  obtain fs2 where mp: "merge_phase (oe_merge oe) fs (length (chunkify scenes)) (vi_fps_den vi) = Inr fs2"
    and b: "bits_of fs2 ''video.mkv'' = Some (concat (map c [0..<length (chunkify scenes)]))"
    using merge_phase_chunk_files [OF others n ok(4) env] fs by blast
  have au': "\<not> (0 < audio_n \<and> \<not> oe_audio_ok oe)" using au by auto
  let ?evs = "[StageEv ''Preparing'', CropEv (oe_detect oe (cfg_crop_mode cfg = ''none'')) (cfg_crop_mode cfg = ''none''), StageEv ''Chunking'']
      @ [StageEv ''Chunking'', WorkersEv (fst (cap_workers (cfg_workers cfg) (vi_width vi) (vi_height vi) (oe_available oe)))
                    (cfg_workers cfg) (snd (cap_workers (cfg_workers cfg) (vi_width vi) (vi_height vi) (oe_available oe))),
                   EncodingStartedEv (vi_frames vi)] @ [StageEv ''Merging'', StageEv ''Muxing'']"
  have run: "process_chunked cfg oe audio_n q fs =
     (case oe_mux oe of
        MuxOk \<Rightarrow> orch_end oe True True (Inr (oe_detect oe (cfg_crop_mode cfg = ''none''))) ?evs fs2
      | MuxFail left \<Rightarrow> orch_end oe True left (Inl FinalMuxFailed) ?evs fs2)"
    unfolding process_chunked_unfold [OF ok(1-3) kf] orch_encode_ok [OF sc enc] orch_finish_ok [OF mp]
    using au' by (auto split: mux_outcome.splits)
  show ?thesis using b
    by (cases "oe_mux oe") (auto simp: run orch_end_def orch_stages_def)
qed

lemma orch_finish_cleaned:
  "oo_cleaned (orch_finish oe a crop vi n fs evs) \<longleftrightarrow>
     oe_out_pre oe \<or> \<not> isl (oo_result (orch_finish oe a crop vi n fs evs))
     \<or> (oe_mux oe = MuxFail True \<and> oo_result (orch_finish oe a crop vi n fs evs) = Inl FinalMuxFailed)"
  by (auto simp: orch_finish_def orch_end_def Let_def split: sum.splits prod.splits mux_outcome.splits)

lemma orch_encode_cleaned:
  "oo_cleaned (orch_encode cfg oe a q crop vi sf fs evs) \<longleftrightarrow>
     oe_out_pre oe \<or> \<not> isl (oo_result (orch_encode cfg oe a q crop vi sf fs evs))
     \<or> (oe_mux oe = MuxFail True \<and> oo_result (orch_encode cfg oe a q crop vi sf fs evs) = Inl FinalMuxFailed)"
  by (auto simp: orch_encode_def orch_end_def orch_finish_cleaned Let_def split: sum.splits prod.splits option.splits)

lemma process_chunked_cleaned:
  "oo_cleaned (process_chunked cfg oe a q fs) \<longleftrightarrow>
     oe_mkdir_ok oe \<and> (oe_out_pre oe \<or> \<not> isl (oo_result (process_chunked cfg oe a q fs))
     \<or> (oe_mux oe = MuxFail True \<and> oo_result (process_chunked cfg oe a q fs) = Inl FinalMuxFailed))"
  by (auto simp: process_chunked_def orch_end_def orch_encode_cleaned Let_def split: option.splits)

lemma orch_finish_out_exists:
  "oo_out_exists (orch_finish oe a crop vi n fs evs) = oo_cleaned (orch_finish oe a crop vi n fs evs)"
  by (auto simp: orch_finish_def orch_end_def Let_def split: sum.splits prod.splits mux_outcome.splits)

lemma orch_encode_out_exists:
  "oo_out_exists (orch_encode cfg oe a q crop vi sf fs evs) = oo_cleaned (orch_encode cfg oe a q crop vi sf fs evs)"
  by (auto simp: orch_encode_def orch_end_def orch_finish_out_exists Let_def split: sum.splits prod.splits option.splits)

text \<open>The output file exists after \<open>ProcessChunked\<close> exactly when it existed before or
  the deferred clean-up ran because of it.\<close>

lemma process_chunked_out_exists:
  "oo_out_exists (process_chunked cfg oe a q fs) \<longleftrightarrow> oe_out_pre oe \<or> oo_cleaned (process_chunked cfg oe a q fs)"
  by (auto simp: process_chunked_def orch_end_def orch_encode_out_exists orch_encode_cleaned Let_def split: option.splits)

lemma orch_finish_stages:
  "stage_names (oo_events (orch_finish oe a crop vi n fs evs))
     \<in> {stage_names evs @ [''Merging''], stage_names evs @ [''Merging'', ''Muxing'']}
   \<and> (\<not> isl (oo_result (orch_finish oe a crop vi n fs evs))
        \<longrightarrow> stage_names (oo_events (orch_finish oe a crop vi n fs evs)) = stage_names evs @ [''Merging'', ''Muxing''])"
  by (auto simp: orch_finish_def orch_end_def Let_def split: sum.splits prod.splits mux_outcome.splits)

lemma orch_encode_stages:
  "stage_names (oo_events (orch_encode cfg oe a q crop vi sf fs evs))
     \<in> {stage_names evs, stage_names evs @ [''Chunking''], stage_names evs @ [''Chunking'', ''Encoding''],
        stage_names evs @ [''Chunking'', ''Encoding'', ''Merging''], stage_names evs @ [''Chunking'', ''Encoding'', ''Merging'', ''Muxing'']}
   \<and> (\<not> isl (oo_result (orch_encode cfg oe a q crop vi sf fs evs))
        \<longrightarrow> stage_names (oo_events (orch_encode cfg oe a q crop vi sf fs evs))
            = stage_names evs @ [''Chunking'', ''Encoding'', ''Merging'', ''Muxing''])"
proof (cases "load_scenes sf (vi_frames vi)")
  case (Inr scenes)
  let ?evs = "evs @ [StageEv ''Chunking'', WorkersEv (fst (cap_workers (cfg_workers cfg) (vi_width vi) (vi_height vi) (oe_available oe)))
                    (cfg_workers cfg) (snd (cap_workers (cfg_workers cfg) (vi_width vi) (vi_height vi) (oe_available oe))),
                   EncodingStartedEv (vi_frames vi)]"
  have names: "stage_names ?evs = stage_names evs @ [''Chunking'', ''Encoding'']" by simp
  show ?thesis
  proof (cases "orch_encode cfg oe a q crop vi sf fs evs = orch_finish oe a crop vi (length (chunkify scenes)) fs ?evs")
    case True
    then show ?thesis using orch_finish_stages [of oe a crop vi "length (chunkify scenes)" fs ?evs] names by auto
  next
    case False
    then show ?thesis using Inr
      by (auto simp: orch_encode_def orch_end_def Let_def split: prod.splits option.splits)
  qed
qed (auto simp: orch_encode_def orch_end_def)

lemma ex_load_scenes: "load_scenes (Contents ''0\<newline>720\<newline>'') 1000 = Inr ex_scenes"
  by (simp add: load_scenes_def go_text_eval ensure_zero_def ex_scenes_def)

text \<open>The run of \<open>ex_oe\<close> up to its final mux, whatever the mux does.\<close>

lemma ex_run:
  "oo_result (process_chunked (new_config [] [] []) (ex_oe\<lparr>oe_mux := m\<rparr>) n 27 (chunk_files (\<lambda>i. [int i]) 2))
     = (case m of MuxOk \<Rightarrow> Inr (crop_to (crop_str 1920 800 0 140)) | MuxFail _ \<Rightarrow> Inl FinalMuxFailed)"
proof -
  have "length (chunkify ex_scenes) = 2" by (simp add: chunkify_def ex_scenes_def)
  then show ?thesis
    using process_chunked_to_mux [of "ex_oe\<lparr>oe_mux := m\<rparr>" ex_vi "new_config [] [] []" "Contents ''0\<newline>720\<newline>''"
        ex_scenes 27 "chunk_files (\<lambda>i. [int i]) 2" "\<lambda>i. [int i]" "[]" n] ex_load_scenes
    by (cases m) (simp_all add: ex_oe_def ex_vi_def merge_env_ok_def merge_ok_env_def)
qed

subsection \<open>Properties\<close>

text \<open>C26. When every phase succeeds (index, keyframes, scene loading, \<open>EncodeAll\<close>, the
  merges, audio and the final mux) and the encode directory holds the files of the chunks
  the planner made, \<open>ProcessChunked\<close> returns the crop result of \<open>DetectCrop\<close>, the merged
  video is the chunks' bitstreams in index order, the work directory is removed and the
  stages were reported in the order of the spec's state machine.\<close>

theorem process_chunked_success:
  assumes ok: "oe_mkdir_ok oe" "oe_index_ok oe" "oe_vidinf oe = Some vi" "vi_fps_den vi \<noteq> 0"
    and kf: "oe_keyframes oe vi (chunk_duration_for_width cfg (vi_width vi)) = Some sf"
    and sc: "load_scenes sf (vi_frames vi) = Inr scenes" and n: "0 < length (chunkify scenes)"
    and enc: "\<forall>ch cv. oe_encode oe (chunkify scenes) (encode_config_of cfg q) ch cv = None"
    and fs: "fs = chunk_files c (length (chunkify scenes)) @ others"
    and others: "\<forall>p\<in>fst ` set others. \<not> is_enc_ivf p" "distinct (map fst others)"
    and env: "merge_env_ok (oe_merge oe)" and au: "audio_n = 0 \<or> oe_audio_ok oe" and mux: "oe_mux oe = MuxOk"
  shows "oo_result (process_chunked cfg oe audio_n q fs) = Inr (oe_detect oe (cfg_crop_mode cfg = ''none''))
     \<and> bits_of (oo_fs (process_chunked cfg oe audio_n q fs)) ''video.mkv''
         = Some (concat (map c [0..<length (chunkify scenes)]))
     \<and> oo_cleaned (process_chunked cfg oe audio_n q fs)
     \<and> stage_names (oo_events (process_chunked cfg oe audio_n q fs)) = orch_stages"
  using process_chunked_to_mux [OF ok kf sc n enc fs others env au] mux by simp

theorem process_chunked_success_witness:
  "oo_result (process_chunked (new_config [] [] []) ex_oe 1 27 (chunk_files (\<lambda>i. [int i]) 2)) = Inr (crop_to (crop_str 1920 800 0 140))
   \<and> bits_of (oo_fs (process_chunked (new_config [] [] []) ex_oe 1 27 (chunk_files (\<lambda>i. [int i]) 2))) ''video.mkv''
       = Some (map int [0..<2])
   \<and> oo_cleaned (process_chunked (new_config [] [] []) ex_oe 1 27 (chunk_files (\<lambda>i. [int i]) 2))
   \<and> stage_names (oo_events (process_chunked (new_config [] [] []) ex_oe 1 27 (chunk_files (\<lambda>i. [int i]) 2))) = orch_stages"
proof -
  have "length (chunkify ex_scenes) = 2" by (simp add: chunkify_def ex_scenes_def)
  then show ?thesis
    using process_chunked_success [of ex_oe ex_vi "new_config [] [] []" "Contents ''0\<newline>720\<newline>''" ex_scenes 27
        "chunk_files (\<lambda>i. [int i]) 2" "\<lambda>i. [int i]" "[]" 1] ex_load_scenes
    by (simp add: ex_oe_def ex_vi_def merge_env_ok_def merge_ok_env_def)
qed

text \<open>C28. When the final mux fails after FFmpeg has created the output file, the
  deferred clean-up sees the file and removes the work directory: the resume log and the
  encoded chunks are lost although \<open>ProcessChunked\<close> fails, and the partial output file
  stays where the next run will take it for a finished encode.\<close>

theorem process_chunked_mux_leftover:
  assumes "oe_mkdir_ok oe" "oe_mux oe = MuxFail True"
    and "oo_result (process_chunked cfg oe audio_n q fs) = Inl FinalMuxFailed"
  shows "oo_cleaned (process_chunked cfg oe audio_n q fs)"
  using assms by (simp add: process_chunked_cleaned)

theorem process_chunked_mux_leftover_witness:
  "oo_cleaned (process_chunked (new_config [] [] []) (ex_oe\<lparr>oe_mux := MuxFail True\<rparr>) 1 27 (chunk_files (\<lambda>i. [int i]) 2))"
proof -
  have "length (chunkify ex_scenes) = 2" by (simp add: chunkify_def ex_scenes_def)
  then have "oo_result (process_chunked (new_config [] [] []) (ex_oe\<lparr>oe_mux := MuxFail True\<rparr>) 1 27 (chunk_files (\<lambda>i. [int i]) 2))
             = Inl FinalMuxFailed"
    using process_chunked_to_mux [of "ex_oe\<lparr>oe_mux := MuxFail True\<rparr>" ex_vi "new_config [] [] []"
        "Contents ''0\<newline>720\<newline>''" ex_scenes 27 "chunk_files (\<lambda>i. [int i]) 2" "\<lambda>i. [int i]" "[]" 1] ex_load_scenes
    by (simp add: ex_oe_def ex_vi_def merge_env_ok_def merge_ok_env_def)
  then show ?thesis using process_chunked_mux_leftover [of "ex_oe\<lparr>oe_mux := MuxFail True\<rparr>"]
    by (simp add: ex_oe_def)
qed

text \<open>C27. A run that fails without an output file (none before the run, and no mux
  that left one) keeps its work directory, so that the next run can resume it.\<close>

theorem process_chunked_failure_keeps_workdir:
  assumes "\<not> oe_out_pre oe" "oe_mux oe \<noteq> MuxFail True" "isl (oo_result (process_chunked cfg oe audio_n q fs))"
  shows "\<not> oo_cleaned (process_chunked cfg oe audio_n q fs)"
  using assms by (auto simp: process_chunked_cleaned)

theorem process_chunked_failure_keeps_workdir_witness:
  "\<not> oo_cleaned (process_chunked (new_config [] [] []) (ex_oe\<lparr>oe_index_ok := False\<rparr>) 1 27 [])"
  using process_chunked_failure_keeps_workdir [of "ex_oe\<lparr>oe_index_ok := False\<rparr>" "new_config [] [] []" 1 27 "[]"]
  by (simp add: ex_oe_def process_chunked_def orch_end_def)

text \<open>C29. The stages \<open>ProcessChunked\<close> reports are always a prefix of Preparing,
  Chunking, Chunking, Encoding, Merging, Muxing, and all of them when it succeeds: no phase is
  entered before the ones it depends on.\<close>

theorem process_chunked_stage_order:
  "stage_names (oo_events (process_chunked cfg oe a q fs))
     = take (length (stage_names (oo_events (process_chunked cfg oe a q fs)))) orch_stages
   \<and> (\<not> isl (oo_result (process_chunked cfg oe a q fs)) \<longrightarrow> stage_names (oo_events (process_chunked cfg oe a q fs)) = orch_stages)"
proof (cases "oe_mkdir_ok oe \<and> oe_index_ok oe \<and> oe_vidinf oe \<noteq> None
              \<and> oe_keyframes oe (the (oe_vidinf oe)) (chunk_duration_for_width cfg (vi_width (the (oe_vidinf oe)))) \<noteq> None")
  case True
  then obtain vi sf where ok: "oe_mkdir_ok oe" "oe_index_ok oe" "oe_vidinf oe = Some vi"
    and kf: "oe_keyframes oe vi (chunk_duration_for_width cfg (vi_width vi)) = Some sf" by auto
  show ?thesis
    using orch_encode_stages [of cfg oe a q "oe_detect oe (cfg_crop_mode cfg = ''none'')" vi sf fs
             "[StageEv ''Preparing'', CropEv (oe_detect oe (cfg_crop_mode cfg = ''none'')) (cfg_crop_mode cfg = ''none''), StageEv ''Chunking'']"]
    by (auto simp: process_chunked_unfold [OF ok kf] orch_stages_def)
next
  case False
  then show ?thesis by (auto simp: process_chunked_def orch_end_def orch_stages_def Let_def split: option.splits)
qed

theorem process_chunked_stage_order_witness:
  "stage_names (oo_events (process_chunked (new_config [] [] []) (ex_oe\<lparr>oe_index_ok := False\<rparr>) 1 27 []))
     = take (length (stage_names (oo_events (process_chunked (new_config [] [] []) (ex_oe\<lparr>oe_index_ok := False\<rparr>) 1 27 []))))
            orch_stages"
  using process_chunked_stage_order [of "new_config [] [] []" "ex_oe\<lparr>oe_index_ok := False\<rparr>" 1 27 "[]"] by simp

text \<open>C30. The crop offsets \<open>parseCropFilter\<close> passes to \<open>EncodeAll\<close> are the \<open>x\<close> and
  \<open>y\<close> of the rectangle \<open>DetectCrop\<close> put in its filter.\<close>

theorem crop_offsets_roundtrip:
  assumes "w < 2 ^ 32" "h < 2 ^ 32" "x < 2 ^ 32" "y < 2 ^ 32"
  shows "parse_crop_filter (cr_filter (crop_to (crop_str w h x y))) = (of_nat x, of_nat y)"
  using assms scan_u32_digits [of y "[]"] by (simp add: crop_to_def parse_crop_filter_def crop_str_def scan_lit_def scan_u32_digits)

theorem crop_offsets_roundtrip_witness:
  "parse_crop_filter (cr_filter (crop_to (crop_str 1920 800 0 140))) = (0, 140)"
  using crop_offsets_roundtrip [of 1920 800 0 140] by simp

end
