(* ===== verification/Batch.thy ===== *)
theory Batch
  imports Orchestrator_Props Validator
begin

text \<open>
  The batch loop, \<open>ProcessVideos\<close> in \<open>src/internal/processing/audio.go\<close> (lines 131--410),
  with \<open>determineQualitySettings\<close>.  Each input file comes with the outcomes of the calls
  the loop makes for it: the cancellation check, \<open>util.FileExists\<close> on its output path,
  \<open>ffprobe.GetVideoProperties\<close>, MediaInfo's HDR flag, the audio channel counts, the
  environment of its \<open>ProcessChunked\<close> run (\<open>Orchestrator.process_chunked\<close>), the probes
  of the output for \<open>ValidateOutputVideo\<close> (\<open>Validator.validate_output_video\<close>) and the
  file sizes.  The loop records the reporter events that decide a file's fate and the
  \<open>EncodeResult\<close>s; the summary is the \<open>switch\<close> at its end.  Timings, the encoding
  speed, the cool-down sleep and the display-only events are not modelled.
\<close>

record pv_file =
  pf_name :: string
  pf_cancelled :: bool
  pf_out_exists :: bool
  pf_props :: "video_props option"
  pf_hdr :: "bool option"
  pf_channels :: "u32 list"
  pf_streams :: nat
  pf_orch :: orch_env
  pf_fs :: fsys
  pf_probes :: probes
  pf_in_size :: u64
  pf_out_size :: u64

text \<open>\<open>EncodeResult\<close> (lines 120--129) without the timings and the validation steps.\<close>

record pv_result =
  res_name :: string
  res_in_size :: u64
  res_out_size :: u64
  res_passed :: bool

datatype pv_event =
    CancelledEv
  | SkipExistingEv string
  | AnalysisErrorEv string
  | EncodingErrorEv string orch_error
  | ValidationCompleteEv bool

datatype batch_outcome =
    NoFilesEncoded
  | OneEncoded string
  | BatchComplete nat nat u64 u64 nat nat

subsection \<open>One file\<close>

definition determine_quality :: "video_props \<Rightarrow> config \<Rightarrow> nat" where
  "determine_quality p cfg = unat (crf_for_width cfg (vp_width p))"

text \<open>Lines 285--316: the expectations of the validation and its verdict.\<close>

definition pv_validate :: "pv_file \<Rightarrow> video_props \<Rightarrow> bool \<Rightarrow> crop_result \<Rightarrow> bool" where
  "pv_validate f p hdr crop =
     (let (ew, eh) = get_output_dimensions (vp_width p) (vp_height p) (cr_filter crop);
          opts = full_options ew eh (vp_duration p) hdr (int (length (pf_channels f)))
      in case validate_output_video (pf_probes f) opts of Inl _ \<Rightarrow> False | Inr r \<Rightarrow> is_valid r)"

text \<open>The body of the loop (lines 164--360): whether the loop stops, the events, and the
  result appended.\<close>

definition pv_file_step :: "config \<Rightarrow> pv_file \<Rightarrow> bool \<times> pv_event list \<times> pv_result option" where
  "pv_file_step cfg f =
     (if pf_cancelled f then (True, [CancelledEv], None)
      else if pf_out_exists f then (False, [SkipExistingEv (pf_name f)], None)
      else case pf_props f of
        None \<Rightarrow> (False, [AnalysisErrorEv (pf_name f)], None)
      | Some p \<Rightarrow>
          (case pf_hdr f of
             None \<Rightarrow> (False, [AnalysisErrorEv (pf_name f)], None)
           | Some hdr \<Rightarrow>
               (let out = process_chunked cfg (pf_orch f) (pf_streams f) (determine_quality p cfg) (pf_fs f) in
                case oo_result out of
                  Inl e \<Rightarrow> (False, [EncodingErrorEv (pf_name f) e], None)
                | Inr crop \<Rightarrow>
                    (let passed = pv_validate f p hdr crop in
                     (False, [ValidationCompleteEv passed],
                      Some \<lparr>res_name = pf_name f, res_in_size = pf_in_size f, res_out_size = pf_out_size f,
                            res_passed = passed\<rparr>)))))"

subsection \<open>The loop and the summary\<close>

fun process_videos_loop :: "config \<Rightarrow> pv_file list \<Rightarrow> pv_event list \<times> pv_result list" where
  "process_videos_loop cfg [] = ([], [])"
| "process_videos_loop cfg (f # fs) =
     (let (stop, evs, r) = pv_file_step cfg f in
      if stop then (evs, [])
      else (let (evs', rs) = process_videos_loop cfg fs in
            (evs @ evs', (case r of None \<Rightarrow> [] | Some x \<Rightarrow> [x]) @ rs)))"

text \<open>Lines 362--407; the totals are \<open>uint64\<close> sums and wrap.\<close>

definition batch_summary :: "nat \<Rightarrow> pv_result list \<Rightarrow> batch_outcome" where
  "batch_summary n_files rs =
     (case rs of
        [] \<Rightarrow> NoFilesEncoded
      | [r] \<Rightarrow> OneEncoded (res_name r)
      | _ \<Rightarrow> (let passed = length (filter res_passed rs) in
             BatchComplete (length rs) n_files (sum_list (map res_in_size rs)) (sum_list (map res_out_size rs))
               passed (length rs - passed)))"

definition process_videos :: "config \<Rightarrow> pv_file list \<Rightarrow> pv_event list \<times> pv_result list \<times> batch_outcome" where
  "process_videos cfg files =
     (let (evs, rs) = process_videos_loop cfg files in (evs, rs, batch_summary (length files) rs))"

text \<open>A 1080p SDR source with two stereo tracks, encoded by the run of \<open>Orchestrator_Props.ex_oe\<close>
  (letterbox crop to 1920x800) and probed as \<open>Validator.ex_probe\<close>.\<close>

definition ex_file :: pv_file where
  "ex_file = \<lparr>pf_name = ''movie.mkv'', pf_cancelled = False, pf_out_exists = False,
     pf_props = Some \<lparr>vp_width = 1920, vp_height = 1080, vp_duration = 30, vp_bit_depth = Some 10\<rparr>,
     pf_hdr = Some False, pf_channels = [2, 2], pf_streams = 2, pf_orch = ex_oe,
     pf_fs = chunk_files (\<lambda>i. [int i]) 2, pf_probes = ex_probe, pf_in_size = 1000, pf_out_size = 400\<rparr>"

subsection \<open>Lemmas\<close>

lemma pv_file_step_Some:
  assumes "pv_file_step cfg f = (b, evs, Some r)"
  shows "\<not> pf_cancelled f \<and> \<not> pf_out_exists f \<and> \<not> b
     \<and> (\<exists>p hdr crop. pf_props f = Some p \<and> pf_hdr f = Some hdr
          \<and> oo_result (process_chunked cfg (pf_orch f) (pf_streams f) (determine_quality p cfg) (pf_fs f)) = Inr crop
          \<and> r = \<lparr>res_name = pf_name f, res_in_size = pf_in_size f, res_out_size = pf_out_size f,
                 res_passed = pv_validate f p hdr crop\<rparr>)"
  using assms by (auto simp: pv_file_step_def Let_def split: if_splits option.splits sum.splits)

lemma process_videos_loop_Some:
  "r \<in> set (snd (process_videos_loop cfg files)) \<Longrightarrow>
   \<exists>f \<in> set (takeWhile (\<lambda>f. \<not> pf_cancelled f) files). \<exists>b evs. pv_file_step cfg f = (b, evs, Some r)"
proof (induction files)
  case Nil
  then show ?case by simp
next
  case (Cons f fs)
  obtain b evs ro where st: "pv_file_step cfg f = (b, evs, ro)" by (metis prod_cases3)
  show ?case
  proof (cases "pf_cancelled f")
    case True
    then have "b" using st by (simp add: pv_file_step_def)
    then show ?thesis using Cons.prems st by simp
  next
    case False
    then have "\<not> b" using st by (auto simp: pv_file_step_def Let_def split: if_splits option.splits sum.splits)
    then have "r = the ro \<and> ro \<noteq> None \<or> r \<in> set (snd (process_videos_loop cfg fs))"
      using Cons.prems st by (auto split: prod.splits option.splits)
    then show ?thesis using Cons.IH st False by auto
  qed
qed

lemma ex_quality:
  "determine_quality \<lparr>vp_width = 1920, vp_height = 1080, vp_duration = 30, vp_bit_depth = Some 10\<rparr> (new_config [] [] []) = 27"
  by (simp add: determine_quality_def new_config_def crf_for_width_def default_crf_hd_def
      uhd_width_threshold_def hd_width_threshold_def auto_parallel_config_def)

lemma ex_file_fields:
  "pf_orch ex_file = ex_oe\<lparr>oe_mux := MuxOk\<rparr>" "pf_streams ex_file = 2" "pf_fs ex_file = chunk_files (\<lambda>i. [int i]) 2"
  "pf_props ex_file = Some \<lparr>vp_width = 1920, vp_height = 1080, vp_duration = 30, vp_bit_depth = Some 10\<rparr>"
  "pf_probes ex_file = ex_probe"
  by (simp_all add: ex_file_def ex_oe_def)

lemma ex_file_step:
  "pv_file_step (new_config [] [] []) ex_file =
     (False, [ValidationCompleteEv True],
      Some \<lparr>res_name = ''movie.mkv'', res_in_size = 1000, res_out_size = 400, res_passed = True\<rparr>)"
proof -
  have d: "get_output_dimensions 1920 1080 (cr_filter (crop_to (crop_str 1920 800 0 140))) = (1920, 800)"
    using output_dims_crop_str [of 1920 800 1920 1080 0 140] by (simp add: crop_to_def)
  have v: "pv_validate ex_file \<lparr>vp_width = 1920, vp_height = 1080, vp_duration = 30, vp_bit_depth = Some 10\<rparr> False
             (crop_to (crop_str 1920 800 0 140))"
    unfolding pv_validate_def
    by (simp add: d ex_file_def ex_probe_def validate_output_video_def
        validate_checks_full validate_video_codec_def validate_bit_depth_def
        validate_dimensions_def validate_duration_def validate_sync_def validate_hdr_status_def validate_hdr_result_def
        validate_audio_def duration_tolerance_def max_sync_drift_ms_def to_lower_def ascii_lower_def Let_def)
  show ?thesis
    using ex_run [of MuxOk 2] ex_quality v by (simp add: pv_file_step_def ex_file_def Let_def) (simp add: ex_oe_def)
qed

subsection \<open>Properties\<close>

text \<open>C34. Every result \<open>ProcessVideos\<close> returns belongs to an input file reached before a
  cancellation, whose output did not exist, whose analysis succeeded and whose
  \<open>ProcessChunked\<close> run succeeded; its validation flag is the verdict of
  \<open>ValidateOutputVideo\<close> on the expectations computed from that run's crop.\<close>

theorem process_videos_results_sound:
  assumes "r \<in> set (fst (snd (process_videos cfg files)))"
  shows "\<exists>f \<in> set (takeWhile (\<lambda>f. \<not> pf_cancelled f) files). pf_name f = res_name r \<and> \<not> pf_out_exists f
     \<and> (\<exists>p hdr crop. pf_props f = Some p \<and> pf_hdr f = Some hdr
          \<and> oo_result (process_chunked cfg (pf_orch f) (pf_streams f) (determine_quality p cfg) (pf_fs f)) = Inr crop
          \<and> res_passed r = pv_validate f p hdr crop)"
proof -
  have "r \<in> set (snd (process_videos_loop cfg files))"
    using assms by (simp add: process_videos_def split: prod.splits)
  then obtain f b evs where "f \<in> set (takeWhile (\<lambda>f. \<not> pf_cancelled f) files)" "pv_file_step cfg f = (b, evs, Some r)"
    using process_videos_loop_Some by blast
  then show ?thesis using pv_file_step_Some [of cfg f b evs r] by auto
qed

theorem process_videos_results_sound_witness:
  "\<exists>f \<in> set (takeWhile (\<lambda>f. \<not> pf_cancelled f) [ex_file]). pf_name f = ''movie.mkv'' \<and> \<not> pf_out_exists f
     \<and> (\<exists>p hdr crop. pf_props f = Some p \<and> pf_hdr f = Some hdr
          \<and> oo_result (process_chunked (new_config [] [] []) (pf_orch f) (pf_streams f) (determine_quality p (new_config [] [] [])) (pf_fs f)) = Inr crop
          \<and> True = pv_validate f p hdr crop)"
  using process_videos_results_sound [of "\<lparr>res_name = ''movie.mkv'', res_in_size = 1000, res_out_size = 400, res_passed = True\<rparr>"
      "new_config [] [] []" "[ex_file]"] ex_file_step
  by (simp add: process_videos_def ex_file_def)

text \<open>C35. A file whose final mux failed after creating the output is never encoded again:
  the failed run removes its work directory, and the next \<open>ProcessVideos\<close> finds the
  partial output, skips the file with a warning and returns no result for it.\<close>

theorem mux_leftover_not_retried:
  assumes "oe_mkdir_ok oe" "oe_mux oe = MuxFail True"
    and "oo_result (process_chunked cfg oe n q fs) = Inl FinalMuxFailed" "\<not> pf_cancelled f"
  shows "oo_cleaned (process_chunked cfg oe n q fs)
     \<and> process_videos_loop cfg' [f\<lparr>pf_out_exists := oo_out_exists (process_chunked cfg oe n q fs)\<rparr>]
         = ([SkipExistingEv (pf_name f)], [])"
proof -
  have c: "oo_cleaned (process_chunked cfg oe n q fs)" using assms by (simp add: process_chunked_cleaned)
  then have "oo_out_exists (process_chunked cfg oe n q fs)" by (simp add: process_chunked_out_exists)
  then show ?thesis using c assms(4) by (simp add: pv_file_step_def)
qed

theorem mux_leftover_not_retried_witness:
  "oo_cleaned (process_chunked (new_config [] [] []) (ex_oe\<lparr>oe_mux := MuxFail True\<rparr>) 2 27 (chunk_files (\<lambda>i. [int i]) 2))
   \<and> process_videos_loop (new_config [] [] [])
        [ex_file\<lparr>pf_out_exists := oo_out_exists (process_chunked (new_config [] [] []) (ex_oe\<lparr>oe_mux := MuxFail True\<rparr>) 2 27
                                        (chunk_files (\<lambda>i. [int i]) 2))\<rparr>]
       = ([SkipExistingEv ''movie.mkv''], [])"
  using mux_leftover_not_retried [of "ex_oe\<lparr>oe_mux := MuxFail True\<rparr>" "new_config [] [] []" 2 27
      "chunk_files (\<lambda>i. [int i]) 2" ex_file "new_config [] [] []"] ex_run [of "MuxFail True" 2]
  by (simp add: ex_oe_def ex_file_def)

text \<open>C36. When a file cropped by \<open>DetectCrop\<close> to a rectangle \<open>w:h:x:y\<close> passes
  validation, the probed output has exactly the dimensions \<open>w\<close> x \<open>h\<close> and a duration
  within one second of the source's: the expectations \<open>ProcessVideos\<close> passes to the
  validator are the crop rectangle's (spec section 4.9, check 3).\<close>

theorem validated_output_dims:
  assumes "pv_file_step cfg f = (b, evs, Some r)" "res_passed r" "pf_props f = Some p"
    and "oo_result (process_chunked cfg (pf_orch f) (pf_streams f) (determine_quality p cfg) (pf_fs f))
           = Inr (crop_to (crop_str cw ch x y))"
    and "cw < 2 ^ 32" "ch < 2 ^ 32"
  shows "\<exists>op. pr_props (pf_probes f) = Some op \<and> vp_width op = of_nat cw \<and> vp_height op = of_nat ch
           \<and> \<bar>vp_duration op - vp_duration p\<bar> \<le> 1"
proof -
  obtain hdr where v: "pv_validate f p hdr (crop_to (crop_str cw ch x y))"
    using pv_file_step_Some [OF assms(1)] assms(2-4) by auto
  have d: "get_output_dimensions (vp_width p) (vp_height p) (cr_filter (crop_to (crop_str cw ch x y))) = (of_nat cw, of_nat ch)"
    using output_dims_crop_str [OF assms(5,6)] by (simp add: crop_to_def)
  obtain op w where op: "pr_props (pf_probes f) = Some op" "pr_ff_width (pf_probes f) = Some w"
    using v by (auto simp: pv_validate_def d validate_output_video_def split: option.splits)
  then show ?thesis
    using v by (auto simp: pv_validate_def d validate_output_video_def validate_checks_full
        validate_dimensions_def validate_duration_def duration_tolerance_def Let_def split: if_splits)
qed

theorem validated_output_dims_witness:
  "\<exists>op. pr_props (pf_probes ex_file) = Some op \<and> vp_width op = of_nat 1920 \<and> vp_height op = of_nat 800
     \<and> \<bar>vp_duration op - 30\<bar> \<le> 1"
  using validated_output_dims [of "new_config [] [] []" ex_file False "[ValidationCompleteEv True]"
      "\<lparr>res_name = ''movie.mkv'', res_in_size = 1000, res_out_size = 400, res_passed = True\<rparr>"
      "\<lparr>vp_width = 1920, vp_height = 1080, vp_duration = 30, vp_bit_depth = Some 10\<rparr>" 1920 800 0 140]
    ex_file_step ex_run [of MuxOk 2]
  by (simp add: ex_file_fields ex_quality ex_probe_def)

end
