(* ===== verification/Spec2Isabelle.thy ===== *)
theory Spec2Isabelle
  imports Chunk Admission Streaming Pool_Liveness Merge_Props Crop_Props Audio Encoder_Args Batch
begin

text \<open>
  A verification development for reel, a batch AV1 transcoder written in Go that
  splits a video into fixed-length frame ranges (chunks), encodes them in parallel by
  streaming decoded frames into one SVT-AV1 process per worker, records finished
  chunks in a resume log, concatenates the chunk bitstreams and validates the result.

  \<^bold>\<open>Layout.\<close>
  \<^item> \<open>Reel_Prelude\<close>: the Go library calls the components make on text, modelled
    once on byte strings: \<open>strconv.Atoi\<close>/\<open>ParseUint\<close> (\<open>atoi\<close>,
    \<open>parse_uint64\<close>), the \<open>%d\<close> and \<open>%04d\<close> verbs (\<open>fmt_int\<close>, \<open>fmt_u64\<close>,
    \<open>fmt_04d\<close>), \<open>strings.Fields\<close>/\<open>TrimSpace\<close> (\<open>str_fields\<close>,
    \<open>trim_space\<close>) and \<open>bufio.ScanLines\<close> (\<open>scan_lines\<close>), with the round-trip
    lemmas between printing and parsing.  Go \<open>int\<close> is \<open>int\<close> with the range
    predicate \<open>go_int\<close>; Go \<open>uint64\<close> is \<open>64 word\<close>.
  \<^item> \<open>Chunk\<close> (\<open>src/internal/chunk/chunk.go\<close>): records \<open>scene\<close>, \<open>chunk\<close>,
    \<open>chunk_comp\<close>, \<open>resume_inf\<close>; \<open>load_scenes\<close> (\<open>LoadScenes\<close>: scanner loop
    \<open>parse_frame_numbers\<close>, \<open>sort\<close>, \<open>ensure_zero\<close>, conversion loop
    \<open>scenes_of\<close>), \<open>validate_scenes\<close>, \<open>chunkify\<close>, and the resume log:
    \<open>get_resume\<close> (\<open>GetResume\<close>), \<open>append_done\<close> (\<open>AppendDone\<close>),
    \<open>done_set\<close>, \<open>total_encoded_size\<close> (wrapping \<open>uint64\<close> sum),
    \<open>total_encoded_frames\<close>, \<open>ivf_name\<close>.  A file is a \<open>file_state\<close> (absent,
    unreadable, or its bytes).  The keyframe package that writes the scene file is not
    among the sources: \<open>fixed_boundaries\<close>/\<open>scene_file\<close>/\<open>spec_chunks\<close> model it
    from the spec (section 4.2).

  \<^item> \<open>Admission\<close> (\<open>src/internal/encode/permits.go\<close>, \<open>calculateThreadsPerWorker\<close>):
    \<open>cap_workers\<close>, \<open>memory_per_worker\<close>, \<open>calculate_permits\<close>,
    \<open>calculate_threads_per_worker\<close>; the host's memory and core counts are parameters.
  \<^item> \<open>Streaming\<close> (\<open>encodeChunkStreaming\<close>, \<open>src/unnamed/part_002\<close>): one loop
    iteration \<open>frame_iter\<close>, the epilogue \<open>finish_encode\<close>, the loop \<open>stream_loop\<close>
    and \<open>encode_chunk_streaming\<close>; the outcomes of the external calls are an
    \<open>enc_env\<close>, cancellation at iteration \<open>i\<close> a parameter.
  \<^item> \<open>Pool_Model\<close> (\<open>EncodeAll\<close>, \<open>streamingWorker\<close>): the shared state of the
    dispatcher, workers and collector goroutines as a record \<open>pool\<close>, one atomic action
    per \<open>event\<close> (\<open>pool_step\<close>, \<open>None\<close> when the goroutine is blocked), runs
    \<open>pool_run\<close> and reachability \<open>pool_reach\<close>; a worker encodes one frame per event
    with the streaming encoder's \<open>frame_iter\<close>/\<open>finish_encode\<close>.  The semaphore
    (package worker) is a counter; the resume log appended by the collector is a list.
  \<^item> \<open>Pool_Invariants\<close>: permit conservation, the multiset of chunk indices in the
    pipeline, membership and honesty of results, progress, the exit condition and the
    no-failure invariant, each preserved by every event.
  \<^item> \<open>Pool_Liveness\<close>: a potential lowered by every event, absence of stuck states,
    and the cancellation run.
  \<^item> \<open>Merge\<close>, \<open>Merge_Props\<close> (\<open>writeConcatFile\<close>, \<open>MergeOutput\<close>, \<open>MergeBatched\<close>
    in \<open>src/internal/encoder/encoder.go\<close>, and the merge phase of \<open>ProcessChunked\<close>): the
    work directory is an association list from file names to packet lists (\<open>fsys\<close>); an
    FFmpeg concat run writes the concatenation of its inputs (\<open>ffmpeg_concat\<close>); the
    outcomes of \<open>MkdirAll\<close>, \<open>os.Create\<close> and FFmpeg are a \<open>merge_env\<close>.
  \<^item> \<open>Crop\<close>, \<open>Crop_Props\<close> (\<open>src/internal/processing/crop.go\<close>): \<open>cropRegex\<close>
    (\<open>find_crop\<close>), the per-sample count map and its best entry (\<open>sample_crop\<close>), the
    decision \<open>decide_crop\<close>, \<open>detect_crop\<close> over the 141 sample points,
    \<open>is_effective_crop\<close>, \<open>get_output_dimensions\<close>.  Go's map iteration order and
    \<open>sort.Slice\<close>'s order among equal counts are permutation parameters; the ffmpeg
    run of a sample is a parameter giving its output text.  \<open>spec_crop\<close> is the rule
    of spec section 4.4.
  \<^item> \<open>Config\<close> (\<open>src/unnamed/part_003\<close>): the \<open>Config\<close> record, \<open>new_config\<close>,
    \<open>validate_config\<close> with its error values, \<open>crf_for_width\<close>,
    \<open>chunk_duration_for_width\<close>; \<open>uint8\<close> fields are \<open>8 word\<close>, floats are reals.
  \<^item> \<open>Validator\<close> (\<open>src/unnamed/part_000\<close>): \<open>validate_output_video\<close> and each of
    its checks; the ffprobe/MediaInfo probes of the output are a \<open>probes\<close> record.  The
    \<open>Result\<close> struct and \<open>IsValid\<close> are not among the sources (\<open>val_result\<close>,
    \<open>is_valid\<close> and \<open>spec_validation\<close> follow spec section 4.9).
  \<^item> \<open>Orchestrator\<close>, \<open>Orchestrator_Props\<close> (\<open>ProcessChunked\<close>,
    \<open>parseCropFilter\<close> in \<open>src/internal/processing/chunked.go\<close>): \<open>process_chunked\<close>
    composes \<open>orch_encode\<close> and \<open>orch_finish\<close>, calling the planner
    (\<open>Chunk.load_scenes\<close>, \<open>Chunk.chunkify\<close>), admission (\<open>Admission.cap_workers\<close>) and
    the merger (\<open>Merge.merge_batched\<close>, \<open>Merge.merge_output\<close>); the other external
    outcomes (work directory, indexing, \<open>GetVidInf\<close>, keyframe file, \<open>EncodeAll\<close>'s
    error, audio extraction, final mux) are an \<open>orch_env\<close>.  The run returns its
    result, the reporter events, whether the deferred clean-up removed the work directory
    (\<open>orch_end\<close>) and the work directory's files.
  \<^item> \<open>Audio\<close> (\<open>src/internal/chunk/audio.go\<close>): \<open>calculate_audio_bitrate\<close> on
    \<open>32 word\<close>, the command lines of \<open>ExtractAudio\<close> and \<open>MuxFinal\<close>; FFmpeg is a
    predicate on command lines, and \<open>ff_pairs\<close> reads a command line as FFmpeg does.
  \<^item> \<open>Encoder_Args\<close> (\<open>buildSvtArgs\<close>, \<open>MakeSvtCmd\<close>): the SvtAv1EncApp command line.
  \<^item> \<open>Batch\<close> (\<open>ProcessVideos\<close> in \<open>src/internal/processing/audio.go\<close>): the loop
    over the input files, each with the outcomes of its calls (\<open>pv_file\<close>), calling
    \<open>Orchestrator.process_chunked\<close> and \<open>Validator.validate_output_video\<close> with the
    expectations computed by \<open>Crop.get_output_dimensions\<close>, and the final summary.

  \<^bold>\<open>What is proved.\<close>
  Worker pool: with no failures and no cancellation every final state has logged each
  remaining chunk exactly once and returns no error (\<open>Pool_Invariants.pool_all_encoded\<close>);
  a final state is always reachable (\<open>Pool_Liveness.pool_terminates\<close>) and every run is
  finite (\<open>Pool_Liveness.pool_run_bounded\<close>); permits are conserved and the channel sends
  never block (\<open>Pool_Invariants.pool_permits\<close>); no chunk is logged twice or again after
  a resume (\<open>Pool_Invariants.pool_log_once\<close>); progress is the initial progress plus
  the log (\<open>Pool_Invariants.pool_progress\<close>); the first error stays latched
  (\<open>Pool_Invariants.pool_err_latched\<close>); a cancellation with no chunk in flight makes
  \<open>EncodeAll\<close> return no error with a chunk never encoded
  (\<open>Pool_Liveness.cancel_loses_chunk\<close>, a divergence from the spec's scenario S5).
  Streaming encoder: success exactly when every external call succeeds, with frames
  \<open>start..end-1\<close> written in order; the frames written are always a prefix; a
  cancellation at frame \<open>j\<close> stops it before frame \<open>j\<close>.  Admission: thread count equals
  the spec's clamp, worker count bounds and the memory bound.  Chunks and resume log:
  the chunks partition the frame range (\<open>Chunk.load_scenes_partition\<close>); the planner's
  file yields the spec's chunks (\<open>Chunk.planner_refines_spec\<close>); the log line format
  round-trips (\<open>Chunk.resume_append_roundtrip\<close>); a torn digit line merges with the
  next record (\<open>Chunk.torn_record_merges\<close>).
  Merger: the merge phase yields the chunks' bitstreams in index order on both paths
  (\<open>Merge_Props.merge_phase_roundtrip\<close>); a second batched merge always fails
  (\<open>Merge_Props.merge_batched_retry_fails\<close>).  Crop: the decision refines the spec's
  rule for every map order (\<open>Crop_Props.decide_crop_refines_spec\<close>) and does not depend
  on the order (\<open>Crop_Props.decide_crop_order_independent\<close>); detector lines round-trip;
  a uniform letterbox is cropped; ties are broken by map order.  Configuration: a
  validated configuration gives in-range CRF and durations (\<open>Config.validated_config_bounds\<close>).
  Validator: its verdict refines section 4.9 (\<open>Validator.validator_refines_spec\<close>), and a
  failed audio probe passes (\<open>Validator.validator_audio_probe_failure\<close>).
  Orchestrator: the success path composes planner, pool outcome and merger
  (\<open>Orchestrator_Props.process_chunked_success\<close>); stages are reported in the spec's
  order; a failure without output keeps the work directory; a mux that fails after
  creating the output removes it (\<open>Orchestrator_Props.process_chunked_mux_leftover\<close>);
  crop offsets round-trip through \<open>parseCropFilter\<close>.  Batch: every result comes from a
  successful run (\<open>Batch.process_videos_results_sound\<close>); a mux left-over is never
  retried (\<open>Batch.mux_leftover_not_retried\<close>); a validated crop has the rectangle's
  dimensions (\<open>Batch.validated_output_dims\<close>).  Audio and encoder: the remux maps
  subtitles and chapters from the source whichever inputs exist, every audio stream gets
  its bitrate, the bitrate follows the spec modulo \<open>2^32\<close>, and the SVT-AV1 command
  line has no repeated option.

  \<^bold>\<open>Bounds and termination.\<close>
  No fuel is used.  The pool is a step function with an explicit potential that bounds
  every run (\<open>Pool_Liveness.pool_run_bounded\<close>); every other loop of the code is a
  structural recursion over a list (lines, samples, chunks, batches, files, streams).
  Words keep the widths of the code: \<open>uint32\<close> dimensions and bitrates, \<open>uint64\<close>
  sizes and memory, \<open>uint8\<close> CRF and presets; floats are reals.

  \<^bold>\<open>Not modelled.\<close>
  The terminal and log reporters and the event adapter (\<open>src/reporter.go\<close>,
  \<open>src/events.go\<close>, \<open>src/unnamed/part_003\<close>, \<open>part_007\<close>): output formatting only,
  modelled here as the events the components emit.  Logging
  (\<open>src/internal/logging\<close>), temporary-file and disk-space utilities
  (\<open>src/internal/util/tempfile.go\<close>), the command-line interface (\<open>part_004\<close>), file
  discovery (\<open>part_001\<close>) and the library API (\<open>part_007\<close>): file-system and process
  plumbing with no state the spec constrains.  The display helpers of \<open>ProcessVideos\<close>
  (audio descriptions, \<open>setupEncodeParams\<close>, \<open>SvtParamsDisplay\<close>) only build
  messages.  Packages that are not among the sources (ffms, ffprobe, mediainfo, keyframe,
  worker, util) are outcomes or parameters of the components that call them.
\<close>

end
